theory Spec2Isabelle
  imports Complex_Main "HOL-Library.Word" "HOL-Library.Multiset"
begin

unbundle bit_operations_syntax

section \<open>Data model\<close>

text \<open>
  Both scripts work on NumPy arrays of dtype uint8 delivered by OpenCV. A colour image
  (\<open>frame\<close>, \<open>bg\<close>, \<open>hsv\<close>) has shape \<open>(height, width, 3)\<close>; a mask has shape
  \<open>(height, width)\<close>. An array is modelled as the list of its rows, a pixel as the triple
  of its three channel bytes (B, G, R for camera frames; H, S, V after the conversion).
\<close>

type_synonym u8 = "8 word"
type_synonym pixel = "u8 \<times> u8 \<times> u8"
type_synonym frame = "pixel list list"
type_synonym mask = "u8 list list"

text \<open>\<open>a.shape[:2]\<close>: the number of rows and the number of columns.\<close>

definition shape :: "'a list list \<Rightarrow> nat \<times> nat" where
  "shape a = (length a, if a = [] then 0 else length (hd a))"

text \<open>An ndarray is rectangular: every row has the width the shape reports.\<close>

definition rectangular :: "'a list list \<Rightarrow> bool" where
  "rectangular a = (\<forall>r \<in> set a. length r = snd (shape a))"

text \<open>A binary mask: every cell is 0 (unset) or 255 (set).\<close>

definition binary :: "mask \<Rightarrow> bool" where
  "binary m = (\<forall>r \<in> set m. \<forall>v \<in> set r. v = 0 \<or> v = 255)"

datatype error = CvSizeMismatch | StackValueError

section \<open>The OpenCV and NumPy primitives the scripts call\<close>

text \<open>
  The library functions are modelled by their documented behaviour on uint8 arrays.
  \<open>cv2.flip(f, 1)\<close> mirrors around the vertical axis: every row is reversed.
\<close>

definition flip1 :: "'a list list \<Rightarrow> 'a list list" where
  "flip1 f = map rev f"

text \<open>
  \<open>cv2.cvtColor(frame, cv2.COLOR_BGR2HSV)\<close> converts pixel by pixel. The conversion of
  one pixel is OpenCV's; it is a parameter \<open>cvt\<close> of the model.
\<close>

definition cvtColor :: "(pixel \<Rightarrow> pixel) \<Rightarrow> frame \<Rightarrow> frame" where
  "cvtColor cvt src = map (map cvt) src"

text \<open>
  \<open>cv2.inRange(src, lowerb, upperb)\<close>: 255 where every channel lies between the bounds,
  both inclusive, 0 elsewhere.
\<close>

definition inRange_px :: "pixel \<Rightarrow> pixel \<Rightarrow> pixel \<Rightarrow> u8" where
  "inRange_px p lowerb upperb =
     (case p of (c0, c1, c2) \<Rightarrow>
      case lowerb of (l0, l1, l2) \<Rightarrow>
      case upperb of (u0, u1, u2) \<Rightarrow>
        if l0 \<le> c0 \<and> c0 \<le> u0 \<and> l1 \<le> c1 \<and> c1 \<le> u1 \<and> l2 \<le> c2 \<and> c2 \<le> u2
        then 255 else 0)"

definition inRange :: "frame \<Rightarrow> pixel \<Rightarrow> pixel \<Rightarrow> mask" where
  "inRange src lowerb upperb = map (map (\<lambda>p. inRange_px p lowerb upperb)) src"

text \<open>\<open>a | b\<close> on two uint8 arrays of one shape: the bitwise OR, cell by cell.\<close>

definition np_or :: "mask \<Rightarrow> mask \<Rightarrow> mask" where
  "np_or a b = map2 (map2 (OR)) a b"

text \<open>\<open>cv2.bitwise_not(m)\<close>: every bit of every cell inverted.\<close>

definition bitwise_not :: "mask \<Rightarrow> mask" where
  "bitwise_not m = map (map NOT) m"

text \<open>
  \<open>cv2.bitwise_and(src, src, mask=m)\<close> with a fresh destination: where the mask cell is
  nonzero the pixel is \<open>src AND src\<close>, elsewhere the destination keeps its initial zeros.
  A mask of another size is refused with an exception.
\<close>

definition and_px :: "pixel \<Rightarrow> pixel \<Rightarrow> pixel" where
  "and_px p q = (case p of (a0, a1, a2) \<Rightarrow> case q of (b0, b1, b2) \<Rightarrow>
                   (a0 AND b0, a1 AND b1, a2 AND b2))"

definition bitwise_and :: "frame \<Rightarrow> frame \<Rightarrow> mask \<Rightarrow> error + frame" where
  "bitwise_and src1 src2 m =
     (if shape src1 = shape src2 \<and> shape m = shape src1
      then Inr (map2 (\<lambda>(r1, r2) rm. map2 (\<lambda>(p1, p2) v. if v \<noteq> 0 then and_px p1 p2 else (0, 0, 0))
                                         (zip r1 r2) rm)
                     (zip src1 src2) m)
      else Inl CvSizeMismatch)"

text \<open>
  \<open>cv2.add(a, b)\<close> on uint8 images: the channel-wise sum, saturated at 255. Images of
  different sizes are refused with an exception.
\<close>

definition add_sat :: "u8 \<Rightarrow> u8 \<Rightarrow> u8" where
  "add_sat a b = (if unat a + unat b > 255 then 255 else a + b)"

definition add_px :: "pixel \<Rightarrow> pixel \<Rightarrow> pixel" where
  "add_px p q = (case p of (a0, a1, a2) \<Rightarrow> case q of (b0, b1, b2) \<Rightarrow>
                   (add_sat a0 b0, add_sat a1 b1, add_sat a2 b2))"

definition cv_add :: "frame \<Rightarrow> frame \<Rightarrow> error + frame" where
  "cv_add a b =
     (if shape a = shape b then Inr (map2 (map2 add_px) a b) else Inl CvSizeMismatch)"

text \<open>
  Morphology with \<open>kernel = np.ones((3, 3), np.uint8)\<close> and the default border: erosion
  takes the minimum over the 3x3 neighbourhood, dilation the maximum. Outside the image
  the default constant border counts as the largest value for erosion and the smallest
  for dilation, so a missing neighbour never decides the result. \<open>px_or b m i j\<close> reads
  the cell in row \<open>i\<close>, column \<open>j\<close>, or the border value \<open>b\<close> outside the image.
\<close>

definition px_or :: "u8 \<Rightarrow> mask \<Rightarrow> int \<Rightarrow> int \<Rightarrow> u8" where
  "px_or b m i j =
     (if 0 \<le> i \<and> i < int (length m) \<and> 0 \<le> j \<and> j < int (length (m ! nat i))
      then m ! nat i ! nat j else b)"

definition window3 :: "u8 \<Rightarrow> mask \<Rightarrow> nat \<Rightarrow> nat \<Rightarrow> u8 list" where
  "window3 b m i j =
     concat (map (\<lambda>di. map (\<lambda>dj. px_or b m (int i + di) (int j + dj)) [-1, 0, 1]) [-1, 0, 1])"

definition erode_px :: "mask \<Rightarrow> nat \<Rightarrow> nat \<Rightarrow> u8" where
  "erode_px m i j = fold min (window3 255 m i j) 255"

definition dilate_px :: "mask \<Rightarrow> nat \<Rightarrow> nat \<Rightarrow> u8" where
  "dilate_px m i j = fold max (window3 0 m i j) 0"

definition erode3 :: "mask \<Rightarrow> mask" where
  "erode3 m = map (\<lambda>i. map (erode_px m i) [0..<length (m ! i)]) [0..<length m]"

definition dilate3 :: "mask \<Rightarrow> mask" where
  "dilate3 m = map (\<lambda>i. map (dilate_px m i) [0..<length (m ! i)]) [0..<length m]"

text \<open>\<open>cv2.erode(m, kernel, iterations=n)\<close> and \<open>cv2.dilate(m, kernel, iterations=n)\<close>.\<close>

definition erode :: "mask \<Rightarrow> nat \<Rightarrow> mask" where
  "erode m iterations = (erode3 ^^ iterations) m"

definition dilate :: "mask \<Rightarrow> nat \<Rightarrow> mask" where
  "dilate m iterations = (dilate3 ^^ iterations) m"

text \<open>
  \<open>cv2.morphologyEx(m, cv2.MORPH_OPEN, kernel, iterations=n)\<close>: \<open>n\<close> erosions, then
  \<open>n\<close> dilations.
\<close>

definition morphologyEx_OPEN :: "mask \<Rightarrow> nat \<Rightarrow> mask" where
  "morphologyEx_OPEN m iterations = dilate (erode m iterations) iterations"

section \<open>invisible\_cloak.py: segmentation\<close>

definition lower_red1 :: pixel where "lower_red1 = (0, 120, 70)"
definition upper_red1 :: pixel where "upper_red1 = (10, 255, 255)"
definition lower_red2 :: pixel where "lower_red2 = (170, 120, 70)"
definition upper_red2 :: pixel where "upper_red2 = (180, 255, 255)"
definition lower_orange :: pixel where "lower_orange = (10, 100, 70)"
definition upper_orange :: pixel where "upper_orange = (25, 255, 255)"

text \<open>Lines 46 to 51 of \<open>build_red_mask\<close>: the three interval masks and their OR.\<close>

definition raw_mask :: "frame \<Rightarrow> mask" where
  "raw_mask hsv =
     (let mask1 = inRange hsv lower_red1 upper_red1;
          mask2 = inRange hsv lower_red2 upper_red2;
          mask3 = inRange hsv lower_orange upper_orange
      in np_or (np_or mask1 mask2) mask3)"

text \<open>\<open>build_red_mask\<close>: the raw mask, opened twice, dilated once.\<close>

definition build_red_mask :: "frame \<Rightarrow> mask" where
  "build_red_mask hsv =
     (let m = raw_mask hsv;
          m = morphologyEx_OPEN m 2;
          m = dilate m 1
      in m)"

section \<open>invisible\_cloak.py: compositing and the frame loop\<close>

text \<open>Lines 104 to 110 of \<open>main\<close>.\<close>

definition composite :: "frame \<Rightarrow> mask \<Rightarrow> frame \<Rightarrow> error + frame" where
  "composite frame cloak_mask bgi =
     (let inv_mask = bitwise_not cloak_mask in
      case bitwise_and bgi bgi cloak_mask of
        Inl e \<Rightarrow> Inl e
      | Inr background_part \<Rightarrow>
          (case bitwise_and frame frame inv_mask of
             Inl e \<Rightarrow> Inl e
           | Inr current_part \<Rightarrow> cv_add background_part current_part))"

text \<open>
  \<open>cv2.resize(src, dsize, interpolation=...)\<close> is OpenCV's; the model takes it as a
  parameter \<open>rsz\<close> that receives the source image, \<open>dsize = (width, height)\<close> and the
  interpolation flag.
\<close>

datatype interpolation = INTER_NEAREST | INTER_LINEAR | INTER_CUBIC | INTER_AREA

type_synonym resizer = "frame \<Rightarrow> nat \<times> nat \<Rightarrow> interpolation \<Rightarrow> frame"

text \<open>
  The state the loop of \<open>main\<close> carries from frame to frame: the background image
  \<open>bg\<close>. \<open>resizes\<close> records every call of \<open>cv2.resize\<close> (its source, \<open>dsize\<close> and
  flag), oldest first, so that the calls can be counted.
\<close>

record cloak_state =
  bg :: frame
  resizes :: "(frame \<times> (nat \<times> nat) \<times> interpolation) list"

text \<open>Lines 96 to 110: one delivered frame through mirror, resize, mask and composite.\<close>

definition process_frame ::
  "resizer \<Rightarrow> (pixel \<Rightarrow> pixel) \<Rightarrow> cloak_state \<Rightarrow> frame \<Rightarrow> error + (cloak_state \<times> frame)" where
  "process_frame rsz cvt st frame0 =
     (let frame = flip1 frame0;
          st' = (if shape (bg st) \<noteq> shape frame
                 then (let dsize = (snd (shape frame), fst (shape frame)) in
                       st\<lparr>bg := rsz (bg st) dsize INTER_AREA,
                          resizes := resizes st @ [(bg st, dsize, INTER_AREA)]\<rparr>)
                 else st);
          hsv = cvtColor cvt frame;
          cloak_mask = build_red_mask hsv
      in case composite frame cloak_mask (bg st') of
           Inl e \<Rightarrow> Inl e
         | Inr final \<Rightarrow> Inr (st', final))"

text \<open>
  The loop of \<open>main\<close> over the results of \<open>cap.read()\<close> up to the quit key: a failed
  read (\<open>None\<close>) is skipped, a delivered frame is processed; an exception ends the run.
  The result is the final state and the composited frames, in order.
\<close>

fun run_session ::
  "resizer \<Rightarrow> (pixel \<Rightarrow> pixel) \<Rightarrow> cloak_state \<Rightarrow> frame option list \<Rightarrow> error + (cloak_state \<times> frame list)" where
  "run_session rsz cvt st [] = Inr (st, [])"
| "run_session rsz cvt st (None # rs) = run_session rsz cvt st rs"
| "run_session rsz cvt st (Some f # rs) =
     (case process_frame rsz cvt st f of
        Inl e \<Rightarrow> Inl e
      | Inr (st', final) \<Rightarrow>
          (case run_session rsz cvt st' rs of
             Inl e \<Rightarrow> Inl e
           | Inr (st'', outs) \<Rightarrow> Inr (st'', final # outs)))"

section \<open>background.py: acquiring the background\<close>

text \<open>
  The camera is the list of the results its next reads will give: \<open>Some f\<close> for a
  delivered frame, \<open>None\<close> for a failed read. A read from an exhausted source fails.
\<close>

type_synonym camera = "frame option list"

fun cap_read :: "camera \<Rightarrow> frame option \<times> camera" where
  "cap_read [] = (None, [])"
| "cap_read (r # rs) = (r, rs)"

text \<open>
  Lines 58 to 65: \<open>for _ in range(args.frames)\<close>; a failed read takes the
  \<open>continue\<close>, a delivered frame is mirrored and appended.
\<close>

fun capture_frames :: "nat \<Rightarrow> camera \<Rightarrow> frame list \<Rightarrow> frame list \<times> camera" where
  "capture_frames 0 cap frames = (frames, cap)"
| "capture_frames (Suc n) cap frames =
     (case cap_read cap of
        (None, cap') \<Rightarrow> capture_frames n cap' frames
      | (Some f, cap') \<Rightarrow> capture_frames n cap' (frames @ [flip1 f]))"

text \<open>
  \<open>np.median(v)\<close> of a vector of uint8 samples: the middle value of the sorted copy when
  the count is odd, the average of the two middle values when it is even. NumPy returns
  a float64; every such value is a multiple of one half below 256 and is represented
  exactly, so the result is modelled as the real number itself.
\<close>

definition np_median :: "u8 list \<Rightarrow> real" where
  "np_median v =
     (let s = sort v; n = length v in
      if odd n then real (unat (s ! (n div 2)))
      else (real (unat (s ! (n div 2 - 1))) + real (unat (s ! (n div 2)))) / 2)"

text \<open>\<open>.astype(np.uint8)\<close> on a float in the range of uint8: the fraction is dropped.\<close>

definition astype_uint8 :: "real \<Rightarrow> u8" where
  "astype_uint8 x = word_of_int \<lfloor>x\<rfloor>"

definition median_px :: "pixel list \<Rightarrow> pixel" where
  "median_px ps =
     (astype_uint8 (np_median (map fst ps)),
      astype_uint8 (np_median (map (fst \<circ> snd) ps)),
      astype_uint8 (np_median (map (snd \<circ> snd) ps)))"

text \<open>
  Line 71: \<open>np.median(np.stack(frames, axis=0), axis=0).astype(np.uint8)\<close>.
  \<open>np.stack\<close> raises ValueError on an empty list and on arrays of different shapes.
\<close>

definition median_at :: "frame list \<Rightarrow> nat \<Rightarrow> nat \<Rightarrow> pixel" where
  "median_at frames i j = median_px (map (\<lambda>f. f ! i ! j) frames)"

definition median_frame :: "frame list \<Rightarrow> error + frame" where
  "median_frame frames =
     (if frames = [] \<or> (\<exists>f \<in> set frames. shape f \<noteq> shape (hd frames))
      then Inl StackValueError
      else Inr (map (\<lambda>i. map (median_at frames i) [0..<snd (shape (hd frames))])
                    [0..<fst (shape (hd frames))]))"

text \<open>The three channels of a pixel, as \<open>median_px\<close> takes them.\<close>

definition channels :: "(pixel \<Rightarrow> u8) list" where
  "channels = [fst, fst \<circ> snd, snd \<circ> snd]"

text \<open>
  What one capture attempt leaves behind: the camera, the file \<open>args.output\<close> (\<open>None\<close>
  while nothing has been written) and the printed lines.
\<close>

record bg_state =
  cap :: camera
  output_file :: "frame option"
  printed :: "string list"

datatype outcome = Retry bg_state | Saved bg_state frame | Raised error

text \<open>
  Lines 57 to 76, the body of \<open>if key == 32\<close>: capture, then either the message and
  \<open>continue\<close> (back to the preview loop), or the median image written and \<open>break\<close>.
\<close>

definition acquire_background :: "int \<Rightarrow> bg_state \<Rightarrow> outcome" where
  "acquire_background n st =
     (let st1 = st\<lparr>printed := printed st @ [''Capturing background... please keep the scene still.'']\<rparr>;
          (frames, cap') = capture_frames (nat n) (cap st1) [];
          st2 = st1\<lparr>cap := cap'\<rparr>
      in if frames = []
         then Retry (st2\<lparr>printed := printed st2 @ [''Failed to capture frames. Try again.'']\<rparr>)
         else (case median_frame frames of
                 Inl e \<Rightarrow> Raised e
               | Inr median \<Rightarrow>
                   Saved (st2\<lparr>output_file := Some median,
                              printed := printed st2 @ [''Saved background'']\<rparr>) median))"

text \<open>
  The configured intervals, as (lower bound, upper bound) pairs in the order
  \<open>build_red_mask\<close> uses them, and what it means for a pixel to lie inside one: every
  channel between the bounds, both inclusive.
\<close>

definition in_interval :: "pixel \<Rightarrow> pixel \<times> pixel \<Rightarrow> bool" where
  "in_interval p iv =
     (case p of (c0, c1, c2) \<Rightarrow>
      case iv of ((l0, l1, l2), (u0, u1, u2)) \<Rightarrow>
        l0 \<le> c0 \<and> c0 \<le> u0 \<and> l1 \<le> c1 \<and> c1 \<le> u1 \<and> l2 \<le> c2 \<and> c2 \<le> u2)"

definition color_ranges :: "(pixel \<times> pixel) list" where
  "color_ranges = [(lower_red1, upper_red1), (lower_red2, upper_red2), (lower_orange, upper_orange)]"

section \<open>Masks stay binary\<close>

lemma u8_le_255: "(x::u8) \<le> 255"
proof -
  have "unat x < 2 ^ 8" using unsigned_less [of x] by simp
  then show ?thesis by (simp add: word_le_nat_alt)
qed

lemma inRange_px_cases: "inRange_px p lo hi = 0 \<or> inRange_px p lo hi = 255"
  by (simp add: inRange_px_def split: prod.splits)

lemma binary_inRange: "binary (inRange src lo hi)"
  using inRange_px_cases by (auto simp: binary_def inRange_def)

lemma or_u8_binary:
  "(a::u8) = 0 \<or> a = 255 \<Longrightarrow> b = 0 \<or> b = 255 \<Longrightarrow> a OR b = 0 \<or> a OR b = 255"
  by auto

lemma binary_np_or: "binary a \<Longrightarrow> binary b \<Longrightarrow> binary (np_or a b)"
proof -
  assume a: "binary a" and b: "binary b"
  show ?thesis
    unfolding binary_def np_or_def
  proof (intro ballI)
    fix r v assume r: "r \<in> set (map2 (map2 (OR)) a b)" and v: "v \<in> set r"
    from r obtain x y where xy: "(x, y) \<in> set (zip a b)" and req: "r = map2 (OR) x y"
      by auto
    from v req obtain u w where uw: "(u, w) \<in> set (zip x y)" and veq: "v = u OR w"
      by auto
    have "x \<in> set a" "y \<in> set b" using xy by (auto dest: set_zip_leftD set_zip_rightD)
    moreover have "u \<in> set x" "w \<in> set y" using uw by (auto dest: set_zip_leftD set_zip_rightD)
    ultimately have "u = 0 \<or> u = 255" "w = 0 \<or> w = 255"
      using a b by (auto simp: binary_def)
    then show "v = 0 \<or> v = 255" unfolding veq by (rule or_u8_binary)
  qed
qed

lemma binary_raw_mask: "binary (raw_mask hsv)"
  by (simp add: raw_mask_def Let_def binary_np_or binary_inRange)

lemma px_or_binary:
  "binary m \<Longrightarrow> b = 0 \<or> b = 255 \<Longrightarrow> px_or b m i j = 0 \<or> px_or b m i j = 255"
proof (cases "0 \<le> i \<and> i < int (length m) \<and> 0 \<le> j \<and> j < int (length (m ! nat i))")
  case True
  then have "m ! nat i \<in> set m" and "m ! nat i ! nat j \<in> set (m ! nat i)"
    by (simp_all add: nat_less_iff)
  moreover assume "binary m"
  ultimately have "m ! nat i ! nat j = 0 \<or> m ! nat i ! nat j = 255"
    unfolding binary_def by blast
  with True show ?thesis by (simp add: px_or_def)
next
  case False
  moreover assume "b = 0 \<or> b = 255"
  ultimately show ?thesis by (auto simp: px_or_def)
qed

lemma window3_binary:
  "binary m \<Longrightarrow> b = 0 \<or> b = 255 \<Longrightarrow> \<forall>v \<in> set (window3 b m i j). v = 0 \<or> v = 255"
  using px_or_binary by (auto simp: window3_def)

lemma fold_min_binary:
  "\<forall>x \<in> set xs. x = 0 \<or> x = 255 \<Longrightarrow> a = 0 \<or> a = 255 \<Longrightarrow>
   fold min xs (a::u8) = 0 \<or> fold min xs a = 255"
  by (induction xs arbitrary: a) (auto simp: min_def)

lemma fold_max_binary:
  "\<forall>x \<in> set xs. x = 0 \<or> x = 255 \<Longrightarrow> a = 0 \<or> a = 255 \<Longrightarrow>
   fold max xs (a::u8) = 0 \<or> fold max xs a = 255"
  by (induction xs arbitrary: a) (auto simp: max_def)

lemma binary_erode3: "binary m \<Longrightarrow> binary (erode3 m)"
proof -
  assume m: "binary m"
  have "erode_px m i j = 0 \<or> erode_px m i j = 255" for i j
    unfolding erode_px_def
    by (rule fold_min_binary) (use window3_binary [OF m, of 255 i j] in simp_all)
  then show ?thesis by (auto simp: binary_def erode3_def)
qed

lemma binary_dilate3: "binary m \<Longrightarrow> binary (dilate3 m)"
proof -
  assume m: "binary m"
  have "dilate_px m i j = 0 \<or> dilate_px m i j = 255" for i j
    unfolding dilate_px_def
    by (rule fold_max_binary) (use window3_binary [OF m, of 0 i j] in simp_all)
  then show ?thesis by (auto simp: binary_def dilate3_def)
qed

lemma binary_erode: "binary m \<Longrightarrow> binary (erode m n)"
  unfolding erode_def by (induction n) (auto simp: binary_erode3)

lemma binary_dilate: "binary m \<Longrightarrow> binary (dilate m n)"
  unfolding dilate_def by (induction n) (auto simp: binary_dilate3)

lemma binary_morphologyEx_OPEN: "binary m \<Longrightarrow> binary (morphologyEx_OPEN m n)"
  by (simp add: morphologyEx_OPEN_def binary_erode binary_dilate)

lemma binary_build_red_mask: "binary (build_red_mask hsv)"
  by (simp add: build_red_mask_def Let_def binary_raw_mask binary_morphologyEx_OPEN binary_dilate)

section \<open>The raw mask and the colour intervals\<close>

lemma inRange_px_in_interval:
  "inRange_px p lo hi = (if in_interval p (lo, hi) then 255 else 0)"
  by (simp add: inRange_px_def in_interval_def split: prod.splits)

lemma length_inRange [simp]: "length (inRange src lo hi) = length src"
  by (simp add: inRange_def)

lemma length_inRange_row [simp]:
  "i < length src \<Longrightarrow> length (inRange src lo hi ! i) = length (src ! i)"
  by (simp add: inRange_def)

lemma nth_inRange:
  "i < length src \<Longrightarrow> j < length (src ! i) \<Longrightarrow>
   inRange src lo hi ! i ! j = inRange_px (src ! i ! j) lo hi"
  by (simp add: inRange_def)

lemma length_np_or [simp]: "length (np_or a b) = min (length a) (length b)"
  by (simp add: np_or_def)

lemma length_np_or_row:
  "i < length a \<Longrightarrow> i < length b \<Longrightarrow>
   length (np_or a b ! i) = min (length (a ! i)) (length (b ! i))"
  by (simp add: np_or_def)

lemma nth_np_or:
  "i < length a \<Longrightarrow> i < length b \<Longrightarrow> j < length (a ! i) \<Longrightarrow> j < length (b ! i) \<Longrightarrow>
   np_or a b ! i ! j = a ! i ! j OR b ! i ! j"
  by (simp add: np_or_def)

lemma length_raw_mask [simp]: "length (raw_mask hsv) = length hsv"
  by (simp add: raw_mask_def Let_def)

lemma length_raw_mask_row [simp]:
  "i < length hsv \<Longrightarrow> length (raw_mask hsv ! i) = length (hsv ! i)"
  by (simp add: raw_mask_def Let_def length_np_or_row)

lemma nth_raw_mask:
  assumes "i < length hsv" "j < length (hsv ! i)"
  shows "raw_mask hsv ! i ! j =
           inRange hsv lower_red1 upper_red1 ! i ! j OR
           inRange hsv lower_red2 upper_red2 ! i ! j OR
           inRange hsv lower_orange upper_orange ! i ! j"
  using assms by (simp add: raw_mask_def Let_def nth_np_or length_np_or_row or.assoc)

lemma or3_binary_iff:
  "(a::u8) = 0 \<or> a = 255 \<Longrightarrow> b = 0 \<or> b = 255 \<Longrightarrow> c = 0 \<or> c = 255 \<Longrightarrow>
   a OR b OR c = (if a = 255 \<or> b = 255 \<or> c = 255 then 255 else 0)"
  by auto

text \<open>
  Claim C3. Segmentation converts the frame to HSV and marks a pixel in the raw mask
  exactly when, for at least one of the three configured intervals (hue 0 to 10,
  hue 170 to 180, hue 10 to 25), all three channel values of the converted pixel lie within
  the interval's bounds, both inclusive; the raw mask is the cell-wise OR of the three
  interval masks and has the dimensions of the frame.
\<close>

theorem raw_mask_marks_cloak_colours:
  assumes "i < length frame" and "j < length (frame ! i)"
  shows "color_ranges = [((0, 120, 70), (10, 255, 255)),
                         ((170, 120, 70), (180, 255, 255)),
                         ((10, 100, 70), (25, 255, 255))]
       \<and> length (raw_mask (cvtColor cvt frame)) = length frame
       \<and> length (raw_mask (cvtColor cvt frame) ! i) = length (frame ! i)
       \<and> raw_mask (cvtColor cvt frame) ! i ! j =
           inRange (cvtColor cvt frame) lower_red1 upper_red1 ! i ! j OR
           inRange (cvtColor cvt frame) lower_red2 upper_red2 ! i ! j OR
           inRange (cvtColor cvt frame) lower_orange upper_orange ! i ! j
       \<and> (\<forall>iv \<in> set color_ranges.
             inRange (cvtColor cvt frame) (fst iv) (snd iv) ! i ! j =
               (if in_interval (cvt (frame ! i ! j)) iv then 255 else 0))
       \<and> raw_mask (cvtColor cvt frame) ! i ! j =
           (if \<exists>iv \<in> set color_ranges. in_interval (cvt (frame ! i ! j)) iv then 255 else 0)"
proof -
  let ?hsv = "cvtColor cvt frame"
  have len: "i < length ?hsv" "j < length (?hsv ! i)" and px: "?hsv ! i ! j = cvt (frame ! i ! j)"
    using assms by (simp_all add: cvtColor_def)
  have lens: "length ?hsv = length frame" "length (?hsv ! i) = length (frame ! i)"
    using assms by (simp_all add: cvtColor_def)
  have in1: "inRange ?hsv lo hi ! i ! j = (if in_interval (cvt (frame ! i ! j)) (lo, hi) then 255 else 0)"
    for lo hi
    using len px by (simp add: nth_inRange inRange_px_in_interval)
  have raw: "raw_mask ?hsv ! i ! j =
           inRange ?hsv lower_red1 upper_red1 ! i ! j OR
           inRange ?hsv lower_red2 upper_red2 ! i ! j OR
           inRange ?hsv lower_orange upper_orange ! i ! j"
    using len by (rule nth_raw_mask)
  have c1: "color_ranges = [((0, 120, 70), (10, 255, 255)),
                         ((170, 120, 70), (180, 255, 255)),
                         ((10, 100, 70), (25, 255, 255))]"
    by (simp add: color_ranges_def lower_red1_def upper_red1_def lower_red2_def upper_red2_def
        lower_orange_def upper_orange_def)
  have c5: "\<forall>iv \<in> set color_ranges.
             inRange ?hsv (fst iv) (snd iv) ! i ! j =
               (if in_interval (cvt (frame ! i ! j)) iv then 255 else 0)"
    using in1 by (simp add: color_ranges_def)
  have c6: "raw_mask ?hsv ! i ! j =
           (if \<exists>iv \<in> set color_ranges. in_interval (cvt (frame ! i ! j)) iv then 255 else 0)"
    unfolding raw in1 by (simp add: color_ranges_def)
  show ?thesis
    using c1 len lens raw c5 c6 by simp
qed

theorem raw_mask_marks_cloak_colours_witness:
  "raw_mask (cvtColor (\<lambda>p. p) [[(5, 200, 200), (90, 200, 200)]]) ! 0 ! 0 = 255
 \<and> raw_mask (cvtColor (\<lambda>p. p) [[(5, 200, 200), (90, 200, 200)]]) ! 0 ! 1 = 0
 \<and> in_interval (5, 200, 200) (lower_red1, upper_red1)"
proof -
  let ?f = "[[(5, 200, 200), (90, 200, 200)]] :: frame"
  have h: "(0::nat) < length ?f" "(0::nat) < length (?f ! 0)" "(1::nat) < length (?f ! 0)" by simp_all
  have a: "in_interval (5, 200, 200) (lower_red1, upper_red1)"
    by (simp add: in_interval_def lower_red1_def upper_red1_def)
  have b: "\<not> (\<exists>iv \<in> set color_ranges. in_interval (90, 200, 200) iv)"
    by (simp add: color_ranges_def in_interval_def lower_red1_def upper_red1_def lower_red2_def upper_red2_def
        lower_orange_def upper_orange_def)
  have a': "\<exists>iv \<in> set color_ranges. in_interval (5, 200, 200) iv"
    using a by (simp add: color_ranges_def)
  have p0: "?f ! 0 ! 0 = (5, 200, 200)" and p1: "?f ! 0 ! 1 = (90, 200, 200)" by simp_all
  from raw_mask_marks_cloak_colours [OF h(1) h(2), of "\<lambda>p. p"]
  have r0: "raw_mask (cvtColor (\<lambda>p. p) ?f) ! 0 ! 0 =
      (if \<exists>iv \<in> set color_ranges. in_interval (?f ! 0 ! 0) iv then 255 else 0)"
    by (elim conjE)
  from raw_mask_marks_cloak_colours [OF h(1) h(3), of "\<lambda>p. p"]
  have r1: "raw_mask (cvtColor (\<lambda>p. p) ?f) ! 0 ! 1 =
      (if \<exists>iv \<in> set color_ranges. in_interval (?f ! 0 ! 1) iv then 255 else 0)"
    by (elim conjE)
  show ?thesis
    using r0 r1 a a' b unfolding p0 p1 by simp
qed

text \<open>
  The intervals are not pairwise disjoint: the HSV value (10, 120, 70) lies inside the
  first red interval and inside the orange interval.
\<close>

theorem red1_orange_overlap_counterexample:
  "(lower_red1, upper_red1) \<noteq> (lower_orange, upper_orange)
 \<and> in_interval (10, 120, 70) (lower_red1, upper_red1)
 \<and> in_interval (10, 120, 70) (lower_orange, upper_orange)
 \<and> inRange_px (10, 120, 70) lower_red1 upper_red1 = 255
 \<and> inRange_px (10, 120, 70) lower_orange upper_orange = 255"
  by (simp add: in_interval_def inRange_px_def lower_red1_def upper_red1_def
      lower_orange_def upper_orange_def)

text \<open>
  Claim C9, as amended. The two red intervals are disjoint and the second red interval
  is disjoint from the orange one; the first red interval and the orange interval share
  exactly the pixels of hue 10 with saturation at least 120 and value at least 70.
\<close>

theorem color_ranges_overlap_only_at_hue_10:
  "(in_interval (h, s, v) (lower_red1, upper_red1) \<and> in_interval (h, s, v) (lower_orange, upper_orange))
     = (h = 10 \<and> 120 \<le> s \<and> 70 \<le> v)
 \<and> (in_interval (h, s, v) (lower_red1, upper_red1) \<and> in_interval (h, s, v) (lower_red2, upper_red2)) = False
 \<and> (in_interval (h, s, v) (lower_red2, upper_red2) \<and> in_interval (h, s, v) (lower_orange, upper_orange)) = False"
  using u8_le_255 [of s] u8_le_255 [of v] word_unat_eq_iff [of h 10]
  by (auto simp: in_interval_def lower_red1_def upper_red1_def lower_red2_def upper_red2_def
      lower_orange_def upper_orange_def word_le_nat_alt)

lemmas range_defs = lower_red1_def upper_red1_def lower_red2_def upper_red2_def
  lower_orange_def upper_orange_def
lemmas morph_defs = erode3_def erode_px_def dilate3_def dilate_px_def window3_def px_or_def

lemma build_red_mask_steps:
  "build_red_mask hsv = dilate3 (dilate3 (dilate3 (erode3 (erode3 (raw_mask hsv)))))"
  by (simp add: build_red_mask_def morphologyEx_OPEN_def erode_def dilate_def numeral_2_eq_2)

text \<open>
  Claim C10. Every cell of the mask returned by \<open>build_red_mask\<close> is exactly 0 or
  exactly 255, and each stage keeps it so: the interval masks, their OR, the erosions
  and dilations of the opening, and the final dilation.
\<close>

theorem segmentation_mask_is_binary:
  "binary (inRange hsv lo hi)
 \<and> (binary a \<and> binary b \<longrightarrow> binary (np_or a b))
 \<and> binary (raw_mask hsv)
 \<and> (binary m \<longrightarrow> binary (erode m n) \<and> binary (dilate m n) \<and> binary (morphologyEx_OPEN m n))
 \<and> binary (build_red_mask hsv)
 \<and> (\<forall>r \<in> set (build_red_mask hsv). \<forall>v \<in> set r. v = 0 \<or> v = 255)"
  using binary_build_red_mask [of hsv]
  by (simp add: binary_inRange binary_np_or binary_raw_mask binary_erode binary_dilate
      binary_morphologyEx_OPEN) (simp add: binary_def)

theorem segmentation_mask_is_binary_witness:
  "binary [[255, 0]] \<and> binary [[0, 0]] \<and> binary (np_or [[255, 0]] [[0, 0]])
 \<and> binary (morphologyEx_OPEN [[255, 0]] 2)
 \<and> binary (build_red_mask [[(5, 200, 200), (90, 0, 0)]])
 \<and> build_red_mask [[(5, 200, 200), (90, 0, 0)]] = [[0, 0]]"
proof -
  have a: "binary [[255, 0]]" and b: "binary [[0, 0]]" by (simp_all add: binary_def)
  have r: "raw_mask [[(5, 200, 200), (90, 0, 0)]] = [[255, 0]]"
    by (simp add: raw_mask_def inRange_def inRange_px_def np_or_def range_defs)
  have e: "erode3 [[255, 0]] = [[0, 0]]" by (simp add: morph_defs)
  have e0: "erode3 [[0, 0]] = [[0, 0]]" by (simp add: morph_defs)
  have d0: "dilate3 [[0, 0]] = [[0, 0]]" by (simp add: morph_defs)
  have c: "build_red_mask [[(5, 200, 200), (90, 0, 0)]] = [[0, 0]]"
    by (simp only: build_red_mask_steps r e e0 d0)
  show ?thesis
    using segmentation_mask_is_binary
      [of "[[(5, 200, 200), (90, 0, 0)]]" lower_red1 upper_red1 "[[255, 0]]" "[[0, 0]]" "[[255, 0]]" 2]
      a b c
    by simp
qed

section \<open>Compositing\<close>

lemma fst_shape [simp]: "fst (shape a) = length a"
  by (simp add: shape_def)

lemma shape_eq_length: "shape a = shape b \<Longrightarrow> length a = length b"
  by (simp add: shape_def)

lemma rectangular_row: "rectangular a \<Longrightarrow> i < length a \<Longrightarrow> length (a ! i) = snd (shape a)"
  by (simp add: rectangular_def)

lemma shape_map_map [simp]: "shape (map (map f) a) = shape a"
  by (cases a) (simp_all add: shape_def)

lemma rectangular_map_map: "rectangular a \<Longrightarrow> rectangular (map (map f) a)"
  unfolding rectangular_def by (auto simp del: shape_map_map simp: shape_map_map)

lemma shape_map2_grid: "shape a = shape b \<Longrightarrow> shape (map2 (map2 f) a b) = shape a"
  by (cases a; cases b) (simp_all add: shape_def)

lemma rectangular_map2_grid:
  assumes "rectangular a" "rectangular b" "shape a = shape b"
  shows "rectangular (map2 (map2 f) a b)"
proof -
  have "length r = snd (shape a)" if "r \<in> set (map2 (map2 f) a b)" for r
  proof -
    from that obtain x y where xy: "(x, y) \<in> set (zip a b)" and r: "r = map2 f x y" by auto
    then have "x \<in> set a" "y \<in> set b" by (auto dest: set_zip_leftD set_zip_rightD)
    then have "length x = snd (shape a)" "length y = snd (shape a)"
      using assms by (simp_all add: rectangular_def)
    then show ?thesis by (simp add: r)
  qed
  then show ?thesis
    unfolding rectangular_def by (simp add: shape_map2_grid [OF assms(3)])
qed

lemma nth_map2_grid:
  "i < length a \<Longrightarrow> i < length b \<Longrightarrow> j < length (a ! i) \<Longrightarrow> j < length (b ! i) \<Longrightarrow>
   map2 (map2 f) a b ! i ! j = f (a ! i ! j) (b ! i ! j)"
  by simp

lemma and_px_self [simp]: "and_px p p = p"
  by (simp add: and_px_def split: prod.splits)

lemma bitwise_and_self:
  "shape m = shape src \<Longrightarrow>
   bitwise_and src src m = Inr (map2 (map2 (\<lambda>p v. if v \<noteq> 0 then p else (0, 0, 0))) src m)"
  by (simp add: bitwise_and_def zip_same_conv_map zip_map1 split_def)

lemma unat_u8_le: "unat (a::u8) \<le> 255"
  using unsigned_less [of a, where 'a = nat] by simp

lemma add_sat_0_right [simp]: "add_sat a 0 = a"
  using unat_u8_le [of a] by (simp add: add_sat_def)

lemma add_sat_0_left [simp]: "add_sat 0 a = a"
  using unat_u8_le [of a] by (simp add: add_sat_def)

lemma add_px_0_right [simp]: "add_px p (0, 0, 0) = p"
  by (simp add: add_px_def split: prod.splits)

lemma add_px_0_left [simp]: "add_px (0, 0, 0) p = p"
  by (simp add: add_px_def split: prod.splits)

lemma binary_nth:
  "binary m \<Longrightarrow> i < length m \<Longrightarrow> j < length (m ! i) \<Longrightarrow> m ! i ! j = 0 \<or> m ! i ! j = 255"
proof -
  assume b: "binary m" and i: "i < length m" and j: "j < length (m ! i)"
  have "m ! i \<in> set m" using i by simp
  moreover have "m ! i ! j \<in> set (m ! i)" using j by simp
  ultimately show ?thesis using b unfolding binary_def by blast
qed

lemma grid_bounds:
  assumes "rectangular a" "shape a = shape f" "i < fst (shape f)" "j < snd (shape f)"
  shows "i < length a" and "j < length (a ! i)"
proof -
  show i: "i < length a" using assms(2,3) by (simp add: shape_def)
  show "j < length (a ! i)" using rectangular_row [OF assms(1) i] assms(2,4) by simp
qed

lemma shape_bitwise_not [simp]: "shape (bitwise_not m) = shape m"
  by (simp add: bitwise_not_def)

lemma composite_bg_part:
  assumes "shape cloak_mask = shape bgi"
  shows "bitwise_and bgi bgi cloak_mask =
           Inr (map2 (map2 (\<lambda>p v. if v \<noteq> 0 then p else (0, 0, 0))) bgi cloak_mask)"
  using assms by (rule bitwise_and_self)

lemma composite_cur_part:
  assumes "shape cloak_mask = shape frame"
  shows "bitwise_and frame frame (bitwise_not cloak_mask) =
           Inr (map2 (map2 (\<lambda>p v. if v \<noteq> 0 then p else (0, 0, 0))) frame (bitwise_not cloak_mask))"
proof (rule bitwise_and_self)
  show "shape (bitwise_not cloak_mask) = shape frame" using assms by simp
qed

lemma composite_eq:
  assumes m: "shape cloak_mask = shape frame" and b: "shape bgi = shape frame"
  shows "composite frame cloak_mask bgi =
           Inr (map2 (map2 add_px)
                  (map2 (map2 (\<lambda>p v. if v \<noteq> 0 then p else (0, 0, 0))) bgi cloak_mask)
                  (map2 (map2 (\<lambda>p v. if v \<noteq> 0 then p else (0, 0, 0))) frame (bitwise_not cloak_mask)))"
proof -
  let ?keep = "\<lambda>p (v::u8). if v \<noteq> 0 then p else (0, 0, 0) :: pixel"
  have mb: "shape cloak_mask = shape bgi" using m b by simp
  have s1: "shape (map2 (map2 ?keep) bgi cloak_mask) = shape bgi"
    using mb by (intro shape_map2_grid) simp
  have s2: "shape (map2 (map2 ?keep) frame (bitwise_not cloak_mask)) = shape frame"
    using m by (intro shape_map2_grid) simp
  have s: "shape (map2 (map2 ?keep) bgi cloak_mask)
         = shape (map2 (map2 ?keep) frame (bitwise_not cloak_mask))"
    unfolding s1 s2 by (rule b)
  show ?thesis
    unfolding composite_def Let_def composite_bg_part [OF mb] composite_cur_part [OF m]
      sum.case cv_add_def
    using s by (simp only: if_True simp_thms)
qed

lemma rectangular_bitwise_not: "rectangular m \<Longrightarrow> rectangular (bitwise_not m)"
  unfolding bitwise_not_def by (rule rectangular_map_map)

lemma nth_bitwise_not:
  "i < length m \<Longrightarrow> j < length (m ! i) \<Longrightarrow> bitwise_not m ! i ! j = NOT (m ! i ! j)"
  by (simp add: bitwise_not_def)

lemma length_bitwise_not [simp]: "length (bitwise_not m) = length m"
  by (simp add: bitwise_not_def)

lemma length_bitwise_not_row:
  "i < length m \<Longrightarrow> length (bitwise_not m ! i) = length (m ! i)"
  by (simp add: bitwise_not_def)

lemma keep_binary_select:
  fixes v :: u8 and b f :: pixel
  assumes "v = 0 \<or> v = 255"
  shows "add_px (if v \<noteq> 0 then b else (0, 0, 0)) (if NOT v \<noteq> 0 then f else (0, 0, 0))
           = (if v = 255 then b else f)"
  using assms by auto

text \<open>
  The two contributions of the composite and their sum at one position, for images of
  matching dimensions.
\<close>

lemma composite_cells:
  assumes "rectangular frame" and "rectangular cloak_mask" and "rectangular bgi"
    and m: "shape cloak_mask = shape frame" and b: "shape bgi = shape frame"
    and i: "i < fst (shape frame)" and j: "j < snd (shape frame)"
  shows "map2 (map2 (\<lambda>p v. if v \<noteq> 0 then p else (0, 0, 0))) bgi cloak_mask ! i ! j
           = (if cloak_mask ! i ! j \<noteq> 0 then bgi ! i ! j else (0, 0, 0))"
    and "map2 (map2 (\<lambda>p v. if v \<noteq> 0 then p else (0, 0, 0))) frame (bitwise_not cloak_mask) ! i ! j
           = (if NOT (cloak_mask ! i ! j) \<noteq> 0 then frame ! i ! j else (0, 0, 0))"
    and "map2 (map2 add_px)
           (map2 (map2 (\<lambda>p v. if v \<noteq> 0 then p else (0, 0, 0))) bgi cloak_mask)
           (map2 (map2 (\<lambda>p v. if v \<noteq> 0 then p else (0, 0, 0))) frame (bitwise_not cloak_mask)) ! i ! j
           = add_px (if cloak_mask ! i ! j \<noteq> 0 then bgi ! i ! j else (0, 0, 0))
                    (if NOT (cloak_mask ! i ! j) \<noteq> 0 then frame ! i ! j else (0, 0, 0))"
proof -
  have fi: "i < length frame" "j < length (frame ! i)"
    using grid_bounds [OF assms(1) refl i j] by simp_all
  have mi: "i < length cloak_mask" "j < length (cloak_mask ! i)"
    using grid_bounds [OF assms(2) m i j] by simp_all
  have bi: "i < length bgi" "j < length (bgi ! i)"
    using grid_bounds [OF assms(3) b i j] by simp_all
  have ni: "i < length (bitwise_not cloak_mask)" "j < length (bitwise_not cloak_mask ! i)"
    using mi by (simp_all add: length_bitwise_not_row)
  show "map2 (map2 (\<lambda>p v. if v \<noteq> 0 then p else (0, 0, 0))) bgi cloak_mask ! i ! j
           = (if cloak_mask ! i ! j \<noteq> 0 then bgi ! i ! j else (0, 0, 0))"
    by (rule nth_map2_grid [OF bi(1) mi(1) bi(2) mi(2)])
  show "map2 (map2 (\<lambda>p v. if v \<noteq> 0 then p else (0, 0, 0))) frame (bitwise_not cloak_mask) ! i ! j
           = (if NOT (cloak_mask ! i ! j) \<noteq> 0 then frame ! i ! j else (0, 0, 0))"
    unfolding nth_map2_grid [OF fi(1) ni(1) fi(2) ni(2)] nth_bitwise_not [OF mi] by (rule refl)
  show "map2 (map2 add_px)
           (map2 (map2 (\<lambda>p v. if v \<noteq> 0 then p else (0, 0, 0))) bgi cloak_mask)
           (map2 (map2 (\<lambda>p v. if v \<noteq> 0 then p else (0, 0, 0))) frame (bitwise_not cloak_mask)) ! i ! j
           = add_px (if cloak_mask ! i ! j \<noteq> 0 then bgi ! i ! j else (0, 0, 0))
                    (if NOT (cloak_mask ! i ! j) \<noteq> 0 then frame ! i ! j else (0, 0, 0))"
    using fi mi bi ni by (simp add: nth_bitwise_not)
qed

lemma composite_shape:
  assumes "rectangular frame" and "rectangular cloak_mask" and "rectangular bgi"
    and m: "shape cloak_mask = shape frame" and b: "shape bgi = shape frame"
  shows "shape (map2 (map2 add_px)
           (map2 (map2 (\<lambda>p v. if v \<noteq> 0 then p else (0, 0, 0))) bgi cloak_mask)
           (map2 (map2 (\<lambda>p v. if v \<noteq> 0 then p else (0, 0, 0))) frame (bitwise_not cloak_mask)))
         = shape frame"
    and "rectangular (map2 (map2 add_px)
           (map2 (map2 (\<lambda>p v. if v \<noteq> 0 then p else (0, 0, 0))) bgi cloak_mask)
           (map2 (map2 (\<lambda>p v. if v \<noteq> 0 then p else (0, 0, 0))) frame (bitwise_not cloak_mask)))"
proof -
  let ?keep = "\<lambda>p (v::u8). if v \<noteq> 0 then p else (0, 0, 0) :: pixel"
  let ?bp = "map2 (map2 ?keep) bgi cloak_mask"
  let ?cp = "map2 (map2 ?keep) frame (bitwise_not cloak_mask)"
  have bm: "shape bgi = shape cloak_mask" using m b by simp
  have fn: "shape frame = shape (bitwise_not cloak_mask)" using m by simp
  have sbp: "shape ?bp = shape bgi" using bm by (rule shape_map2_grid)
  have scp: "shape ?cp = shape frame" using fn by (rule shape_map2_grid)
  have eq: "shape ?bp = shape ?cp" unfolding sbp scp by (rule b)
  have rbp: "rectangular ?bp"
    using assms(3) assms(2) bm by (rule rectangular_map2_grid)
  have rcp: "rectangular ?cp"
    using assms(1) rectangular_bitwise_not [OF assms(2)] fn by (rule rectangular_map2_grid)
  show "shape (map2 (map2 add_px) ?bp ?cp) = shape frame"
    unfolding shape_map2_grid [OF eq] sbp by (rule b)
  show "rectangular (map2 (map2 add_px) ?bp ?cp)"
    using rbp rcp eq by (rule rectangular_map2_grid)
qed

text \<open>
  Claim C1. For a frame, a binary mask and a background of matching dimensions, the
  composite succeeds and has the frame's dimensions; at every position it equals the
  background pixel where the mask is set (255) and the live-frame pixel where the mask
  is unset (0), so every output pixel is one of the two input pixels, never a blend.
\<close>

theorem composite_selects_background_or_frame:
  assumes "rectangular frame" and "rectangular cloak_mask" and "rectangular bgi"
    and "shape cloak_mask = shape frame" and "shape bgi = shape frame"
    and "binary cloak_mask"
    and "i < fst (shape frame)" and "j < snd (shape frame)"
  shows "\<exists>final. composite frame cloak_mask bgi = Inr final
           \<and> shape final = shape frame \<and> rectangular final
           \<and> (cloak_mask ! i ! j = 255 \<or> cloak_mask ! i ! j = 0)
           \<and> final ! i ! j = (if cloak_mask ! i ! j = 255 then bgi ! i ! j else frame ! i ! j)
           \<and> (final ! i ! j = bgi ! i ! j \<or> final ! i ! j = frame ! i ! j)"
proof -
  let ?keep = "\<lambda>p (v::u8). if v \<noteq> 0 then p else (0, 0, 0) :: pixel"
  let ?final = "map2 (map2 add_px) (map2 (map2 ?keep) bgi cloak_mask)
                  (map2 (map2 ?keep) frame (bitwise_not cloak_mask))"
  have comp: "composite frame cloak_mask bgi = Inr ?final"
    using assms(4,5) by (rule composite_eq)
  have sh: "shape ?final = shape frame" and re: "rectangular ?final"
    using composite_shape [OF assms(1-5)] by blast+
  have mi: "i < length cloak_mask" "j < length (cloak_mask ! i)"
    using grid_bounds [OF assms(2,4,7,8)] by blast+
  have v: "cloak_mask ! i ! j = 0 \<or> cloak_mask ! i ! j = 255"
    using assms(6) mi by (rule binary_nth)
  have sel: "?final ! i ! j = (if cloak_mask ! i ! j = 255 then bgi ! i ! j else frame ! i ! j)"
    unfolding composite_cells(3) [OF assms(1-5,7,8)] using v by (rule keep_binary_select)
  have v': "cloak_mask ! i ! j = 255 \<or> cloak_mask ! i ! j = 0" using v by blast
  have one: "?final ! i ! j = bgi ! i ! j \<or> ?final ! i ! j = frame ! i ! j"
    unfolding sel by simp
  show ?thesis
    by (rule exI [where x = ?final]) (intro conjI comp sh re v' sel one)
qed

theorem composite_selects_background_or_frame_witness:
  "rectangular [[(1, 2, 3), (4, 5, 6) :: pixel]] \<and> binary [[255, 0]]
 \<and> shape [[255, 0 :: u8]] = shape [[(1, 2, 3), (4, 5, 6) :: pixel]]
 \<and> (\<exists>final. composite [[(1, 2, 3), (4, 5, 6)]] [[255, 0]] [[(7, 8, 9), (10, 11, 12)]] = Inr final
        \<and> final ! 0 ! 0 = (7, 8, 9))
 \<and> (\<exists>final. composite [[(1, 2, 3), (4, 5, 6)]] [[255, 0]] [[(7, 8, 9), (10, 11, 12)]] = Inr final
        \<and> final ! 0 ! 1 = (4, 5, 6))"
proof -
  let ?f = "[[(1, 2, 3), (4, 5, 6)]] :: frame"
  let ?m = "[[255, 0]] :: mask"
  let ?b = "[[(7, 8, 9), (10, 11, 12)]] :: frame"
  have h: "rectangular ?f" "rectangular ?m" "rectangular ?b" "shape ?m = shape ?f"
    "shape ?b = shape ?f" "binary ?m"
    by (simp_all add: rectangular_def shape_def binary_def)
  have i0: "0 < fst (shape ?f)" and j0: "0 < snd (shape ?f)" and j1: "1 < snd (shape ?f)"
    by (simp_all add: shape_def)
  from composite_selects_background_or_frame [OF h i0 j0]
  obtain final0 where f0: "composite ?f ?m ?b = Inr final0"
    and p0: "final0 ! 0 ! 0 = (if ?m ! 0 ! 0 = 255 then ?b ! 0 ! 0 else ?f ! 0 ! 0)"
    by blast
  from composite_selects_background_or_frame [OF h i0 j1]
  obtain final1 where f1: "composite ?f ?m ?b = Inr final1"
    and p1: "final1 ! 0 ! 1 = (if ?m ! 0 ! 1 = 255 then ?b ! 0 ! 1 else ?f ! 0 ! 1)"
    by blast
  have q0: "final0 ! 0 ! 0 = (7, 8, 9)" using p0 by simp
  have q1: "final1 ! 0 ! 1 = (4, 5, 6)" using p1 by simp
  have e0: "\<exists>final. composite ?f ?m ?b = Inr final \<and> final ! 0 ! 0 = (7, 8, 9)"
    using f0 q0 by blast
  have e1: "\<exists>final. composite ?f ?m ?b = Inr final \<and> final ! 0 ! 1 = (4, 5, 6)"
    using f1 q1 by blast
  show ?thesis by (intro conjI h(1) h(6) h(4) e0 e1)
qed

text \<open>
  Claim C4. For a frame, a binary mask and a background of matching dimensions, the two
  contributions \<open>background_part\<close> and \<open>current_part\<close> are pixel-disjoint: at every
  position at least one of them is the zero pixel, so no channel sum exceeds 255 and the
  saturating addition is the plain sum.
\<close>

theorem composite_parts_disjoint:
  assumes "rectangular frame" and "rectangular cloak_mask" and "rectangular bgi"
    and "shape cloak_mask = shape frame" and "shape bgi = shape frame"
    and "binary cloak_mask"
    and "i < fst (shape frame)" and "j < snd (shape frame)"
  shows "\<exists>background_part current_part.
           bitwise_and bgi bgi cloak_mask = Inr background_part
         \<and> bitwise_and frame frame (bitwise_not cloak_mask) = Inr current_part
         \<and> (background_part ! i ! j = (0, 0, 0) \<or> current_part ! i ! j = (0, 0, 0))
         \<and> (case background_part ! i ! j of (b0, b1, b2) \<Rightarrow>
              case current_part ! i ! j of (c0, c1, c2) \<Rightarrow>
                unat b0 + unat c0 \<le> 255 \<and> unat b1 + unat c1 \<le> 255 \<and> unat b2 + unat c2 \<le> 255
              \<and> add_px (b0, b1, b2) (c0, c1, c2) = (b0 + c0, b1 + c1, b2 + c2))"
proof -
  let ?keep = "\<lambda>p (v::u8). if v \<noteq> 0 then p else (0, 0, 0) :: pixel"
  let ?bp = "map2 (map2 ?keep) bgi cloak_mask"
  let ?cp = "map2 (map2 ?keep) frame (bitwise_not cloak_mask)"
  have mb: "shape cloak_mask = shape bgi" using assms(4,5) by simp
  have b: "bitwise_and bgi bgi cloak_mask = Inr ?bp"
    using mb by (rule composite_bg_part)
  have c: "bitwise_and frame frame (bitwise_not cloak_mask) = Inr ?cp"
    using assms(4) by (rule composite_cur_part)
  have mi: "i < length cloak_mask" "j < length (cloak_mask ! i)"
    using grid_bounds [OF assms(2,4,7,8)] by blast+
  have v: "cloak_mask ! i ! j = 0 \<or> cloak_mask ! i ! j = 255"
    using assms(6) mi by (rule binary_nth)
  have bpx: "?bp ! i ! j = ?keep (bgi ! i ! j) (cloak_mask ! i ! j)"
    by (rule composite_cells(1) [OF assms(1-5,7,8)])
  have cpx: "?cp ! i ! j = ?keep (frame ! i ! j) (NOT (cloak_mask ! i ! j))"
    by (rule composite_cells(2) [OF assms(1-5,7,8)])
  have disj: "?bp ! i ! j = (0, 0, 0) \<or> ?cp ! i ! j = (0, 0, 0)"
    unfolding bpx cpx using v by auto
  have sums: "case ?bp ! i ! j of (b0, b1, b2) \<Rightarrow>
              case ?cp ! i ! j of (c0, c1, c2) \<Rightarrow>
                unat b0 + unat c0 \<le> 255 \<and> unat b1 + unat c1 \<le> 255 \<and> unat b2 + unat c2 \<le> 255
              \<and> add_px (b0, b1, b2) (c0, c1, c2) = (b0 + c0, b1 + c1, b2 + c2)"
  proof (cases "?bp ! i ! j"; cases "?cp ! i ! j")
    fix b0 b1 b2 c0 c1 c2
    assume e: "?bp ! i ! j = (b0, b1, b2)" "?cp ! i ! j = (c0, c1, c2)"
    from disj e have "(b0 = 0 \<and> b1 = 0 \<and> b2 = 0) \<or> (c0 = 0 \<and> c1 = 0 \<and> c2 = 0)" by simp
    then have "unat b0 + unat c0 \<le> 255 \<and> unat b1 + unat c1 \<le> 255 \<and> unat b2 + unat c2 \<le> 255
              \<and> add_px (b0, b1, b2) (c0, c1, c2) = (b0 + c0, b1 + c1, b2 + c2)"
      by (auto simp: unat_u8_le add_px_def)
    then show ?thesis unfolding e by simp
  qed
  show ?thesis
    by (rule exI [where x = ?bp], rule exI [where x = ?cp]) (intro conjI b c disj sums)
qed

theorem composite_parts_disjoint_witness:
  "rectangular [[(1, 2, 3), (4, 5, 6) :: pixel]] \<and> binary [[255, 0]]
 \<and> shape [[255, 0 :: u8]] = shape [[(1, 2, 3), (4, 5, 6) :: pixel]]
 \<and> bitwise_and [[(7, 8, 9), (10, 11, 12)]] [[(7, 8, 9), (10, 11, 12)]] [[255, 0]]
     = Inr [[(7, 8, 9), (0, 0, 0)]]
 \<and> bitwise_and [[(1, 2, 3), (4, 5, 6)]] [[(1, 2, 3), (4, 5, 6)]] (bitwise_not [[255, 0]])
     = Inr [[(0, 0, 0), (4, 5, 6)]]
 \<and> ([[(7, 8, 9), (0, 0, 0)]] ! 0 ! 0 = (0, 0, 0 :: u8)
      \<or> [[(0, 0, 0), (4, 5, 6)]] ! 0 ! 0 = (0, 0, 0 :: u8))"
proof -
  let ?f = "[[(1, 2, 3), (4, 5, 6)]] :: frame"
  let ?m = "[[255, 0]] :: mask"
  let ?b = "[[(7, 8, 9), (10, 11, 12)]] :: frame"
  have h: "rectangular ?f" "rectangular ?m" "rectangular ?b" "shape ?m = shape ?f"
    "shape ?b = shape ?f" "binary ?m"
    by (simp_all add: rectangular_def shape_def binary_def)
  have i0: "0 < fst (shape ?f)" and j0: "0 < snd (shape ?f)"
    by (simp_all add: shape_def)
  have e1: "bitwise_and ?b ?b ?m = Inr [[(7, 8, 9), (0, 0, 0)]]"
    by (simp add: bitwise_and_def shape_def and_px_def)
  have e2: "bitwise_and ?f ?f (bitwise_not ?m) = Inr [[(0, 0, 0), (4, 5, 6)]]"
    by (simp add: bitwise_and_def bitwise_not_def shape_def and_px_def)
  from composite_parts_disjoint [OF h i0 j0]
  obtain bp cp where "bitwise_and ?b ?b ?m = Inr bp"
    and "bitwise_and ?f ?f (bitwise_not ?m) = Inr cp"
    and d: "bp ! 0 ! 0 = (0, 0, 0) \<or> cp ! 0 ! 0 = (0, 0, 0)"
    by blast
  then have "bp = [[(7, 8, 9), (0, 0, 0)]]" "cp = [[(0, 0, 0), (4, 5, 6)]]"
    using e1 e2 by simp_all
  with d have d': "[[(7, 8, 9), (0, 0, 0)]] ! 0 ! 0 = (0, 0, 0 :: u8)
      \<or> [[(0, 0, 0), (4, 5, 6)]] ! 0 ! 0 = (0, 0, 0 :: u8)"
    by simp
  show ?thesis by (intro conjI h(1) h(6) h(4) e1 e2 d')
qed

section \<open>The median background\<close>

lemma real_unat_u8_bounds: "0 \<le> real (unat (x::u8)) \<and> real (unat x) \<le> 255"
proof -
  have "real (unat x) \<le> real 255" using unat_u8_le [of x] by (simp only: of_nat_le_iff)
  then show ?thesis by (simp del: of_nat_unat)
qed

lemma np_median_bounds: "0 \<le> np_median v \<and> np_median v \<le> 255"
  unfolding np_median_def Let_def
  using real_unat_u8_bounds [of "sort v ! (length v div 2)"]
    real_unat_u8_bounds [of "sort v ! (length v div 2 - 1)"]
  by (auto simp del: of_nat_unat)

lemma unat_astype_uint8:
  assumes "0 \<le> x" "x < 256"
  shows "int (unat (astype_uint8 x)) = \<lfloor>x\<rfloor>"
proof -
  have f: "0 \<le> \<lfloor>x\<rfloor>" "\<lfloor>x\<rfloor> < 256" using assms by (simp_all add: floor_less_iff)
  have "uint (word_of_int \<lfloor>x\<rfloor> :: u8) = \<lfloor>x\<rfloor> mod 2 ^ 8"
    by (simp add: uint_word_of_int)
  also have "\<dots> = \<lfloor>x\<rfloor>" using f by simp
  finally show ?thesis by (simp add: astype_uint8_def)
qed

lemma astype_median_floor: "int (unat (astype_uint8 (np_median v))) = \<lfloor>np_median v\<rfloor>"
  using np_median_bounds [of v] by (intro unat_astype_uint8) simp_all

lemma astype_real_unat: "astype_uint8 (real (unat (x::u8))) = x"
proof -
  have "\<lfloor>real (unat x)\<rfloor> = int (unat x)" by (rule floor_of_nat)
  then show ?thesis unfolding astype_uint8_def by simp
qed

lemma np_median_odd:
  "odd (length v) \<Longrightarrow> np_median v = real (unat (sort v ! (length v div 2)))"
  by (simp add: np_median_def del: of_nat_unat)

lemma astype_median_odd:
  assumes "odd (length v)"
  shows "real (unat (astype_uint8 (np_median v))) = np_median v"
  unfolding np_median_odd [OF assms] astype_real_unat by (rule refl)

lemma sort_replicate_outlier:
  fixes x y :: u8
  shows "sort (replicate a x @ y # replicate b x) =
           (if y \<le> x then y # replicate (a + b) x else replicate (a + b) x @ [y])"
proof -
  have m: "mset (y # replicate (a + b) x) = mset (replicate a x @ y # replicate b x)"
    and m': "mset (replicate (a + b) x @ [y]) = mset (replicate a x @ y # replicate b x)"
    by (rule multiset_eqI, simp)+
  show ?thesis
  proof (cases "y \<le> x")
    case True
    have "sort (replicate a x @ y # replicate b x) = y # replicate (a + b) x"
      using m by (rule properties_for_sort) (use True in simp)
    with True show ?thesis by simp
  next
    case False
    have "sort (replicate a x @ y # replicate b x) = replicate (a + b) x @ [y]"
      using m' by (rule properties_for_sort) (use False in \<open>auto simp: sorted_append\<close>)
    with False show ?thesis by simp
  qed
qed

lemma sort_one_outlier:
  fixes x y :: u8
  assumes "\<forall>z \<in> set xs. z = x" and "\<forall>z \<in> set ys. z = x"
  shows "sort (xs @ y # ys) =
           (if y \<le> x then y # replicate (length xs + length ys) x
            else replicate (length xs + length ys) x @ [y])"
proof -
  have xs: "replicate (length xs) x = xs" and ys: "replicate (length ys) x = ys"
    using assms by (simp_all add: replicate_length_same)
  show ?thesis
    using sort_replicate_outlier [of "length xs" x y "length ys"] unfolding xs ys .
qed

lemma median_one_outlier:
  fixes x y :: u8
  assumes same: "\<forall>z \<in> set xs. z = x" "\<forall>z \<in> set ys. z = x"
    and len: "2 \<le> length xs + length ys"
  shows "astype_uint8 (np_median (xs @ y # ys)) = x"
proof -
  define k where "k = length xs + length ys"
  let ?s = "sort (xs @ y # ys)"
  have n: "length (xs @ y # ys) = Suc k" by (simp add: k_def)
  have k2: "2 \<le> k" using len by (simp add: k_def)
  have mid: "?s ! p = x" if "1 \<le> p" "p < k" for p
  proof (cases "y \<le> x")
    case True
    then have "?s = y # replicate k x" using sort_one_outlier [OF same] by (simp add: k_def)
    then show ?thesis using that by (cases p) simp_all
  next
    case False
    then have "?s = replicate k x @ [y]" using sort_one_outlier [OF same] by (simp add: k_def)
    then show ?thesis using that by (simp add: nth_append)
  qed
  have "np_median (xs @ y # ys) = real (unat x)"
  proof (cases "odd (Suc k)")
    case True
    have "1 \<le> Suc k div 2" "Suc k div 2 < k" using k2 by presburger+
    then have "?s ! (Suc k div 2) = x" by (rule mid)
    then show ?thesis using True unfolding np_median_def Let_def n by (simp del: of_nat_unat)
  next
    case False
    have "1 \<le> Suc k div 2 - 1" "Suc k div 2 - 1 < k" "1 \<le> Suc k div 2" "Suc k div 2 < k"
      using k2 False by presburger+
    then have "?s ! (Suc k div 2 - 1) = x" "?s ! (Suc k div 2) = x" by (simp_all only: mid)
    then show ?thesis using False unfolding np_median_def Let_def n by (simp del: of_nat_unat)
  qed
  then show ?thesis by (simp only: astype_real_unat)
qed

lemma median_px_one_outlier:
  assumes same: "\<forall>q \<in> set ps. q = p" "\<forall>q \<in> set qs. q = p"
    and len: "2 \<le> length ps + length qs"
  shows "median_px (ps @ g # qs) = p"
proof -
  have ch: "astype_uint8 (np_median (map ch (ps @ g # qs))) = ch p" for ch :: "pixel \<Rightarrow> u8"
  proof -
    have "astype_uint8 (np_median (map ch ps @ ch g # map ch qs)) = ch p"
      by (rule median_one_outlier) (use same len in auto)
    then show ?thesis by simp
  qed
  show ?thesis
    unfolding median_px_def ch by simp
qed

lemma median_frame_ok:
  assumes "frames \<noteq> []" and "\<forall>f \<in> set frames. shape f = shape (hd frames)"
  shows "median_frame frames =
           Inr (map (\<lambda>i. map (median_at frames i) [0..<snd (shape (hd frames))])
                    [0..<fst (shape (hd frames))])"
proof -
  have ne: "\<not> (\<exists>f \<in> set frames. shape f \<noteq> shape (hd frames))"
    using assms(2) by blast
  show ?thesis
    unfolding median_frame_def by (simp only: assms(1) ne simp_thms if_False)
qed

lemma median_grid_nth:
  assumes "i < h" "j < w"
  shows "map (\<lambda>i. map (median_at frames i) [0..<w]) [0..<h] ! i ! j = median_at frames i j"
  using assms by simp

lemma median_grid_shape:
  "shape (map (\<lambda>i. map (median_at frames i) [0..<w]) [0..<h]) = (h, if h = 0 then 0 else w)"
proof (cases h)
  case 0
  then show ?thesis by (simp add: shape_def)
next
  case (Suc n)
  have "[0..<Suc n] = 0 # [Suc 0..<Suc n]" by (rule upt_conv_Cons) simp
  then show ?thesis unfolding Suc shape_def by simp
qed

lemma median_grid_rectangular:
  "rectangular (map (\<lambda>i. map (median_at frames i) [0..<w]) [0..<h])"
proof -
  have "length r = (if h = 0 then 0 else w)"
    if "r \<in> set (map (\<lambda>i. map (median_at frames i) [0..<w]) [0..<h])" for r
  proof -
    from that obtain i where "i < h" "r = map (median_at frames i) [0..<w]" by auto
    then show ?thesis by auto
  qed
  then show ?thesis unfolding rectangular_def median_grid_shape by simp
qed

lemma channel_median_px:
  "ch \<in> set channels \<Longrightarrow> ch (median_px ps) = astype_uint8 (np_median (map ch ps))"
  by (auto simp: channels_def median_px_def)

lemma shape_hd_empty: "fst (shape a) = 0 \<Longrightarrow> shape a = (0, 0)"
  by (simp add: shape_def)

lemma sort_10_11: "sort [10, 11 :: u8] = [10, 11]"
  by simp

lemma np_median_10_11: "np_median [10, 11] = 21 / 2"
  unfolding np_median_def Let_def sort_10_11 by simp

text \<open>
  With an even number of frames the output is not always the median: for two frames with
  the values 10 and 11 the median is 10.5, and the stored byte is 10.
\<close>

theorem median_even_count_counterexample:
  "median_frame [[[(10, 0, 0)]], [[(11, 0, 0)]]] = Inr [[(10, 0, 0)]]
 \<and> np_median (map (\<lambda>f. fst (f ! 0 ! 0)) [[[(10, 0, 0)]], [[(11, 0, 0 :: u8)]]]) = 21 / 2
 \<and> real (unat (10 :: u8)) \<noteq> 21 / 2"
proof -
  have z: "np_median [0, 0] = 0"
    unfolding np_median_def Let_def by simp
  have a: "astype_uint8 (21 / 2) = 10" "astype_uint8 0 = 0"
    by (simp_all add: astype_uint8_def)
  have m: "median_frame [[[(10, 0, 0)]], [[(11, 0, 0)]]] = Inr [[(10, 0, 0)]]"
    by (simp add: median_frame_def shape_def median_at_def median_px_def np_median_10_11 z a)
  have n: "np_median (map (\<lambda>f. fst (f ! 0 ! 0)) [[[(10, 0, 0)]], [[(11, 0, 0 :: u8)]]]) = 21 / 2"
    by (simp add: np_median_10_11)
  have d: "real (unat (10 :: u8)) \<noteq> 21 / 2" by simp
  show ?thesis by (intro conjI m n d)
qed

text \<open>
  Claim C2, as amended. For a non-empty list of captured frames of one shape, the
  acquirer's output has that shape and holds, at each position and channel, the median
  of the captured values with its fraction dropped: the median itself when the count of
  frames is odd, and the average of the two middle values rounded down when it is even.
  Where all frames but one agree at a position and there are at least three frames, the
  output there is the value of the majority.
\<close>

theorem median_frame_is_truncated_median:
  assumes ne: "frames \<noteq> []"
    and sh: "\<forall>f \<in> set frames. rectangular f \<and> shape f = shape (hd frames)"
    and i: "i < fst (shape (hd frames))" and j: "j < snd (shape (hd frames))"
  shows "\<exists>out. median_frame frames = Inr out
         \<and> shape out = shape (hd frames) \<and> rectangular out
         \<and> (\<forall>ch \<in> set channels.
               int (unat (ch (out ! i ! j))) = \<lfloor>np_median (map (\<lambda>f. ch (f ! i ! j)) frames)\<rfloor>
             \<and> (odd (length frames) \<longrightarrow>
                  real (unat (ch (out ! i ! j))) = np_median (map (\<lambda>f. ch (f ! i ! j)) frames)))
         \<and> (\<forall>fs1 g fs2 p.
               frames = fs1 @ g # fs2 \<and> 3 \<le> length frames \<and> (\<forall>f \<in> set (fs1 @ fs2). f ! i ! j = p)
               \<longrightarrow> out ! i ! j = p)"
proof -
  define h w where "h = fst (shape (hd frames))" and "w = snd (shape (hd frames))"
  let ?out = "map (\<lambda>i. map (median_at frames i) [0..<w]) [0..<h]"
  have same: "\<forall>f \<in> set frames. shape f = shape (hd frames)" using sh by blast
  have ok: "median_frame frames = Inr ?out"
    unfolding h_def w_def using ne same by (rule median_frame_ok)
  have hw: "i < h" "j < w" using i j by (simp_all add: h_def w_def)
  have shp: "shape ?out = shape (hd frames)"
    unfolding median_grid_shape using hw by (simp add: h_def w_def del: fst_shape)
  have rect: "rectangular ?out" by (rule median_grid_rectangular)
  have px: "?out ! i ! j = median_px (map (\<lambda>f. f ! i ! j) frames)"
    unfolding median_grid_nth [OF hw] median_at_def by (rule refl)
  have chan: "int (unat (ch (?out ! i ! j))) = \<lfloor>np_median (map (\<lambda>f. ch (f ! i ! j)) frames)\<rfloor>
             \<and> (odd (length frames) \<longrightarrow>
                  real (unat (ch (?out ! i ! j))) = np_median (map (\<lambda>f. ch (f ! i ! j)) frames))"
    if c: "ch \<in> set channels" for ch
  proof -
    let ?v = "map (\<lambda>f. ch (f ! i ! j)) frames"
    have e: "ch (?out ! i ! j) = astype_uint8 (np_median ?v)"
      unfolding px channel_median_px [OF c] by (simp add: comp_def)
    have len: "length ?v = length frames" by simp
    show ?thesis
      unfolding e using astype_median_floor [of ?v] astype_median_odd [of ?v] len by metis
  qed
  have outl: "?out ! i ! j = p"
    if a: "frames = fs1 @ g # fs2 \<and> 3 \<le> length frames \<and> (\<forall>f \<in> set (fs1 @ fs2). f ! i ! j = p)"
    for fs1 g fs2 p
  proof -
    have eq: "map (\<lambda>f. f ! i ! j) frames
            = map (\<lambda>f. f ! i ! j) fs1 @ g ! i ! j # map (\<lambda>f. f ! i ! j) fs2"
      using a by simp
    have "median_px (map (\<lambda>f. f ! i ! j) fs1 @ g ! i ! j # map (\<lambda>f. f ! i ! j) fs2) = p"
      by (rule median_px_one_outlier) (use a in auto)
    then show ?thesis unfolding px eq .
  qed
  show ?thesis
    apply (rule exI [where x = ?out])
    apply (intro conjI ok shp rect)
     apply (intro ballI chan, assumption)
    apply (intro allI impI outl, assumption)
    done
qed

theorem median_frame_is_truncated_median_witness:
  "([[[(10, 20, 30)]], [[(10, 20, 30)]], [[(200, 0, 5)]]] :: frame list) \<noteq> []
 \<and> rectangular ([[(10, 20, 30)]] :: frame) \<and> rectangular ([[(200, 0, 5)]] :: frame)
 \<and> shape ([[(200, 0, 5)]] :: frame) = shape ([[(10, 20, 30)]] :: frame)
 \<and> (\<exists>out. median_frame [[[(10, 20, 30)]], [[(10, 20, 30)]], [[(200, 0, 5)]]] = Inr out
        \<and> out ! 0 ! 0 = (10, 20, 30))"
proof -
  let ?f = "[[(10, 20, 30)]] :: frame"
  let ?g = "[[(200, 0, 5)]] :: frame"
  let ?frames = "[?f, ?f, ?g]"
  have ne: "?frames \<noteq> []" by simp
  have r: "rectangular ?f" "rectangular ?g" "shape ?g = shape ?f"
    by (simp_all add: rectangular_def shape_def)
  have sh: "\<forall>f \<in> set ?frames. rectangular f \<and> shape f = shape (hd ?frames)"
    using r by simp
  have i: "0 < fst (shape (hd ?frames))" and j: "0 < snd (shape (hd ?frames))"
    by (simp_all add: shape_def)
  from median_frame_is_truncated_median [OF ne sh i j]
  obtain out where o: "median_frame ?frames = Inr out"
    and outl: "\<forall>fs1 g fs2 p.
               ?frames = fs1 @ g # fs2 \<and> 3 \<le> length ?frames \<and> (\<forall>f \<in> set (fs1 @ fs2). f ! 0 ! 0 = p)
               \<longrightarrow> out ! 0 ! 0 = p"
    by blast
  have "?frames = [?f, ?f] @ ?g # [] \<and> 3 \<le> length ?frames
        \<and> (\<forall>f \<in> set ([?f, ?f] @ []). f ! 0 ! 0 = (10, 20, 30))"
    by simp
  with outl have "out ! 0 ! 0 = (10, 20, 30)" by blast
  with o have e: "\<exists>out. median_frame ?frames = Inr out \<and> out ! 0 ! 0 = (10, 20, 30)" by blast
  show ?thesis by (intro conjI ne r e)
qed

section \<open>The capture loop\<close>

lemma capture_frames_eq:
  "capture_frames n cam acc =
     (acc @ map (flip1 \<circ> the) (filter (\<lambda>r. r \<noteq> None) (take n cam)), drop n cam)"
proof (induction n arbitrary: cam acc)
  case 0
  then show ?case by simp
next
  case (Suc n)
  show ?case
  proof (cases cam)
    case Nil
    then show ?thesis using Suc.IH [of "[]" acc] by simp
  next
    case (Cons r rs)
    then show ?thesis using Suc.IH [of rs] by (cases r) simp_all
  qed
qed

lemma filter_split_length:
  "length (filter (\<lambda>r. r \<noteq> None) xs) + length (filter (\<lambda>r. r = None) xs) = length xs"
  by (induction xs) simp_all

lemma captured_count:
  "length (fst (capture_frames n cam [])) + length (filter (\<lambda>r. r = None) (take n cam))
     + (n - length cam) = n"
proof -
  have "length (fst (capture_frames n cam [])) + length (filter (\<lambda>r. r = None) (take n cam))
          = length (take n cam)"
    unfolding capture_frames_eq using filter_split_length [of "take n cam"] by simp
  then show ?thesis by simp
qed

lemma captured_empty_iff:
  "fst (capture_frames n cam []) = [] \<longleftrightarrow> (\<forall>r \<in> set (take n cam). r = None)"
  unfolding capture_frames_eq by (simp add: filter_empty_conv)

lemma acquire_background_unfold:
  "acquire_background n st =
     (let frames = fst (capture_frames (nat n) (cap st) []);
          st2 = st\<lparr>cap := drop (nat n) (cap st),
                    printed := printed st @ [''Capturing background... please keep the scene still.'']\<rparr>
      in if frames = []
         then Retry (st2\<lparr>printed := printed st2 @ [''Failed to capture frames. Try again.'']\<rparr>)
         else (case median_frame frames of
                 Inl e \<Rightarrow> Raised e
               | Inr median \<Rightarrow>
                   Saved (st2\<lparr>output_file := Some median,
                              printed := printed st2 @ [''Saved background'']\<rparr>) median))"
  unfolding acquire_background_def Let_def capture_frames_eq by (simp split: sum.splits)

text \<open>
  Claim C6. If the capture loop ends with no usable frame (every read of the attempt
  failed), the acquisition reports the failure and goes back to the preview loop: the
  outcome is not a saved background, the output file is what it was before, and the
  failure message is printed.
\<close>

theorem no_frames_no_background:
  assumes "fst (capture_frames (nat n) (cap st) []) = []"
  shows "acquire_background n st =
           Retry (st\<lparr>cap := drop (nat n) (cap st),
                      printed := printed st @
                        [''Capturing background... please keep the scene still.'',
                         ''Failed to capture frames. Try again.'']\<rparr>)
       \<and> (\<forall>st' median. acquire_background n st \<noteq> Saved st' median)
       \<and> (\<forall>st'. acquire_background n st = Retry st' \<longrightarrow> output_file st' = output_file st)
       \<and> (\<forall>r \<in> set (take (nat n) (cap st)). r = None)"
proof -
  have r: "acquire_background n st =
           Retry (st\<lparr>cap := drop (nat n) (cap st),
                      printed := printed st @
                        [''Capturing background... please keep the scene still.'',
                         ''Failed to capture frames. Try again.'']\<rparr>)"
    unfolding acquire_background_unfold Let_def using assms by simp
  have n: "\<forall>r \<in> set (take (nat n) (cap st)). r = None"
    using assms unfolding captured_empty_iff .
  show ?thesis
    unfolding r using n by simp
qed

theorem no_frames_no_background_witness:
  "fst (capture_frames (nat 2) [None, None, Some [[(1, 2, 3)]]] []) = []
 \<and> acquire_background 2 \<lparr>cap = [None, None, Some [[(1, 2, 3)]]], output_file = None, printed = []\<rparr>
     = Retry \<lparr>cap = [Some [[(1, 2, 3)]]], output_file = None,
              printed = [''Capturing background... please keep the scene still.'',
                         ''Failed to capture frames. Try again.'']\<rparr>"
proof -
  let ?st = "\<lparr>cap = [None, None, Some [[(1, 2, 3)]]], output_file = None, printed = []\<rparr>"
  have h: "fst (capture_frames (nat 2) (cap ?st) []) = []"
    by (simp add: numeral_2_eq_2)
  have h': "fst (capture_frames (nat 2) [None, None, Some [[(1, 2, 3)]]] []) = []"
    by (simp add: numeral_2_eq_2)
  have "acquire_background 2 ?st =
           Retry (?st\<lparr>cap := drop (nat 2) (cap ?st),
                      printed := printed ?st @
                        [''Capturing background... please keep the scene still.'',
                         ''Failed to capture frames. Try again.'']\<rparr>)"
    using no_frames_no_background [OF h] by (rule conjunct1)
  then have e: "acquire_background 2 ?st
     = Retry \<lparr>cap = [Some [[(1, 2, 3)]]], output_file = None,
              printed = [''Capturing background... please keep the scene still.'',
                         ''Failed to capture frames. Try again.'']\<rparr>"
    by (simp add: numeral_2_eq_2)
  show ?thesis by (intro conjI h' e)
qed

text \<open>
  Claim C7. The capture loop makes \<open>n\<close> read attempts. A failed read is skipped
  without ending the loop and adds nothing to the captured list, so the list holds
  exactly the delivered frames among the \<open>n\<close> reads, mirrored and in order; it is as
  long as \<open>n\<close> minus the number of failed reads, hence shorter than \<open>n\<close> when the source
  fails, and it is this list that the median is taken of.
\<close>

theorem failed_reads_are_skipped:
  "capture_frames n cam [] =
     (map (flip1 \<circ> the) (filter (\<lambda>r. r \<noteq> None) (take n cam)), drop n cam)
 \<and> length (fst (capture_frames n cam [])) + length (filter (\<lambda>r. r = None) (take n cam))
     + (n - length cam) = n
 \<and> length (fst (capture_frames n cam [])) \<le> n
 \<and> (\<forall>f \<in> set (fst (capture_frames n cam [])). \<exists>g. Some g \<in> set (take n cam) \<and> f = flip1 g)
 \<and> (\<forall>st' median. acquire_background (int n) st = Saved st' median \<longrightarrow>
        median_frame (map (flip1 \<circ> the) (filter (\<lambda>r. r \<noteq> None) (take n (cap st)))) = Inr median)"
proof -
  have a: "capture_frames n cam [] =
     (map (flip1 \<circ> the) (filter (\<lambda>r. r \<noteq> None) (take n cam)), drop n cam)"
    unfolding capture_frames_eq by simp
  have b: "length (fst (capture_frames n cam [])) + length (filter (\<lambda>r. r = None) (take n cam))
     + (n - length cam) = n"
    by (rule captured_count)
  have c: "length (fst (capture_frames n cam [])) \<le> n"
    using b by linarith
  have d: "\<forall>f \<in> set (fst (capture_frames n cam [])). \<exists>g. Some g \<in> set (take n cam) \<and> f = flip1 g"
    unfolding a by auto
  have e: "median_frame (map (flip1 \<circ> the) (filter (\<lambda>r. r \<noteq> None) (take n (cap st)))) = Inr median"
    if "acquire_background (int n) st = Saved st' median" for st' median
    using that unfolding acquire_background_unfold Let_def capture_frames_eq
    by (simp split: if_splits sum.splits)
  show ?thesis
    using a b c d e by blast
qed

theorem failed_reads_are_skipped_witness:
  "capture_frames 3 [Some [[(1, 2, 3), (4, 5, 6)]], None, Some [[(7, 8, 9), (1, 1, 1)]],
                     Some [[(0, 0, 0), (0, 0, 0)]]] []
     = ([[[(4, 5, 6), (1, 2, 3)]], [[(1, 1, 1), (7, 8, 9)]]], [Some [[(0, 0, 0), (0, 0, 0)]]])
 \<and> length (fst (capture_frames 3 [Some [[(1, 2, 3), (4, 5, 6)]], None,
                     Some [[(7, 8, 9), (1, 1, 1)]], Some [[(0, 0, 0), (0, 0, 0)]]] [])) + 1 = 3"
proof -
  let ?cam = "[Some [[(1, 2, 3), (4, 5, 6)]], None, Some [[(7, 8, 9), (1, 1, 1)]],
               Some [[(0, 0, 0), (0, 0, 0)]]] :: camera"
  note t = failed_reads_are_skipped [of 3 ?cam "\<lparr>cap = ?cam, output_file = None, printed = []\<rparr>"]
  from t have a: "capture_frames 3 ?cam [] =
     (map (flip1 \<circ> the) (filter (\<lambda>r. r \<noteq> None) (take 3 ?cam)), drop 3 ?cam)"
    by (rule conjunct1)
  from t have b: "length (fst (capture_frames 3 ?cam [])) + length (filter (\<lambda>r. r = None) (take 3 ?cam))
     + (3 - length ?cam) = 3"
    by (elim conjE)
  have a': "capture_frames 3 ?cam []
     = ([[[(4, 5, 6), (1, 2, 3)]], [[(1, 1, 1), (7, 8, 9)]]], [Some [[(0, 0, 0), (0, 0, 0)]]])"
    unfolding a by (simp add: eval_nat_numeral flip1_def)
  have b': "length (fst (capture_frames 3 ?cam [])) + 1 = 3"
    using b by (simp add: eval_nat_numeral)
  show ?thesis by (intro conjI a' b')
qed

section \<open>The frame loop and the background resize\<close>

lemma shape_flip1 [simp]: "shape (flip1 f) = shape f"
  by (cases f) (simp_all add: shape_def flip1_def)

lemma shape_cvtColor [simp]: "shape (cvtColor cvt f) = shape f"
  by (simp add: cvtColor_def)

lemma shape_inRange [simp]: "shape (inRange src lo hi) = shape src"
  by (simp add: inRange_def)

lemma shape_np_or: "shape a = shape b \<Longrightarrow> shape (np_or a b) = shape a"
  unfolding np_or_def by (rule shape_map2_grid)

lemma shape_raw_mask [simp]: "shape (raw_mask hsv) = shape hsv"
proof -
  have "shape (np_or (inRange hsv lower_red1 upper_red1) (inRange hsv lower_red2 upper_red2))
          = shape hsv"
    by (subst shape_np_or) simp_all
  then have "shape (np_or (np_or (inRange hsv lower_red1 upper_red1)
                                 (inRange hsv lower_red2 upper_red2))
                          (inRange hsv lower_orange upper_orange)) = shape hsv"
    by (subst shape_np_or) simp_all
  then show ?thesis by (simp add: raw_mask_def Let_def)
qed

lemma shape_rows:
  assumes "length a = length b" and "a \<noteq> [] \<Longrightarrow> length (hd a) = length (hd b)"
  shows "shape a = shape b"
  using assms by (cases a; cases b) (simp_all add: shape_def)

lemma shape_erode3 [simp]: "shape (erode3 m) = shape m"
proof (rule shape_rows)
  show "length (erode3 m) = length m" by (simp add: erode3_def)
  assume "erode3 m \<noteq> []"
  then have ne: "m \<noteq> []" by (auto simp: erode3_def)
  then have "[0..<length m] = 0 # [Suc 0..<length m]" by (intro upt_conv_Cons) simp
  then have "hd (erode3 m) = map (erode_px m 0) [0..<length (m ! 0)]"
    by (simp add: erode3_def)
  then show "length (hd (erode3 m)) = length (hd m)" using ne by (simp add: hd_conv_nth)
qed

lemma shape_dilate3 [simp]: "shape (dilate3 m) = shape m"
proof (rule shape_rows)
  show "length (dilate3 m) = length m" by (simp add: dilate3_def)
  assume "dilate3 m \<noteq> []"
  then have ne: "m \<noteq> []" by (auto simp: dilate3_def)
  then have "[0..<length m] = 0 # [Suc 0..<length m]" by (intro upt_conv_Cons) simp
  then have "hd (dilate3 m) = map (dilate_px m 0) [0..<length (m ! 0)]"
    by (simp add: dilate3_def)
  then show "length (hd (dilate3 m)) = length (hd m)" using ne by (simp add: hd_conv_nth)
qed

lemma shape_erode [simp]: "shape (erode m n) = shape m"
  unfolding erode_def by (induction n) simp_all

lemma shape_dilate [simp]: "shape (dilate m n) = shape m"
  unfolding dilate_def by (induction n) simp_all

lemma shape_build_red_mask [simp]: "shape (build_red_mask hsv) = shape hsv"
  by (simp add: build_red_mask_def Let_def morphologyEx_OPEN_def)

lemma composite_ok_shape:
  assumes m: "shape cloak_mask = shape frame" and b: "shape bgi = shape frame"
  shows "\<exists>final. composite frame cloak_mask bgi = Inr final \<and> shape final = shape frame"
proof -
  let ?keep = "\<lambda>p (v::u8). if v \<noteq> 0 then p else (0, 0, 0) :: pixel"
  let ?bp = "map2 (map2 ?keep) bgi cloak_mask"
  let ?cp = "map2 (map2 ?keep) frame (bitwise_not cloak_mask)"
  have bm: "shape bgi = shape cloak_mask" using m b by simp
  have fn: "shape frame = shape (bitwise_not cloak_mask)" using m by simp
  have sbp: "shape ?bp = shape bgi" using bm by (rule shape_map2_grid)
  have scp: "shape ?cp = shape frame" using fn by (rule shape_map2_grid)
  have eq: "shape ?bp = shape ?cp" unfolding sbp scp by (rule b)
  have s: "shape (map2 (map2 add_px) ?bp ?cp) = shape frame"
    unfolding shape_map2_grid [OF eq] sbp by (rule b)
  show ?thesis
    using composite_eq [OF m b] s by blast
qed

text \<open>One delivered frame of shape \<open>(h, w)\<close>, with a resize that honours \<open>dsize\<close>.\<close>

lemma process_frame_step:
  assumes rsz: "shape (rsz (bg st) (w, h) INTER_AREA) = (h, w)"
    and f: "shape f = (h, w)"
  shows "\<exists>final. process_frame rsz cvt st f =
            Inr (if shape (bg st) \<noteq> (h, w)
                 then st\<lparr>bg := rsz (bg st) (w, h) INTER_AREA,
                         resizes := resizes st @ [(bg st, (w, h), INTER_AREA)]\<rparr>
                 else st, final)
          \<and> shape final = (h, w)"
proof -
  let ?frame = "flip1 f"
  let ?mask = "build_red_mask (cvtColor cvt ?frame)"
  have sf: "shape ?frame = (h, w)" using f by simp
  have sm: "shape ?mask = shape ?frame" by simp
  show ?thesis
  proof (cases "shape (bg st) = (h, w)")
    case True
    then have sb: "shape (bg st) = shape ?frame" using sf by simp
    from composite_ok_shape [OF sm sb]
    obtain final where c: "composite ?frame ?mask (bg st) = Inr final"
      and s: "shape final = shape ?frame" by blast
    have "process_frame rsz cvt st f = Inr (st, final)"
      unfolding process_frame_def Let_def using True sf c by simp
    then show ?thesis using True s sf by simp
  next
    case False
    let ?bg = "rsz (bg st) (w, h) INTER_AREA"
    have sb: "shape ?bg = shape ?frame" using rsz sf by simp
    from composite_ok_shape [OF sm sb]
    obtain final where c: "composite ?frame ?mask ?bg = Inr final"
      and s: "shape final = shape ?frame" by blast
    have "process_frame rsz cvt st f =
            Inr (st\<lparr>bg := ?bg, resizes := resizes st @ [(bg st, (w, h), INTER_AREA)]\<rparr>, final)"
      unfolding process_frame_def Let_def using False sf c by simp
    then show ?thesis using False s sf by simp
  qed
qed

lemma run_session_state:
  assumes rsz: "\<forall>b. shape (rsz b (w, h) INTER_AREA) = (h, w)"
    and frames: "\<forall>f. Some f \<in> set reads \<longrightarrow> shape f = (h, w)"
  shows "\<exists>outs. run_session rsz cvt st reads =
            Inr (if (\<exists>f. Some f \<in> set reads) \<and> shape (bg st) \<noteq> (h, w)
                 then st\<lparr>bg := rsz (bg st) (w, h) INTER_AREA,
                         resizes := resizes st @ [(bg st, (w, h), INTER_AREA)]\<rparr>
                 else st, outs)
          \<and> length outs = length (filter (\<lambda>r. r \<noteq> None) reads)
          \<and> (\<forall>final \<in> set outs. shape final = (h, w))"
  using frames
proof (induction reads arbitrary: st)
  case Nil
  then show ?case by simp
next
  case (Cons r rs)
  have rest: "\<forall>f. Some f \<in> set rs \<longrightarrow> shape f = (h, w)" using Cons.prems by simp
  show ?case
  proof (cases r)
    case None
    from Cons.IH [OF rest, of st] show ?thesis using None by simp
  next
    case (Some f)
    have sf: "shape f = (h, w)" using Cons.prems Some by simp
    let ?st1 = "if shape (bg st) \<noteq> (h, w)
                 then st\<lparr>bg := rsz (bg st) (w, h) INTER_AREA,
                         resizes := resizes st @ [(bg st, (w, h), INTER_AREA)]\<rparr>
                 else st"
    have r1: "shape (rsz (bg st) (w, h) INTER_AREA) = (h, w)" using rsz by blast
    from process_frame_step [of rsz st w h f cvt, OF r1 sf]
    obtain final where p: "process_frame rsz cvt st f = Inr (?st1, final)"
      and s: "shape final = (h, w)" by blast
    have b1: "shape (bg ?st1) = (h, w)" using r1 by simp
    from Cons.IH [OF rest, of ?st1]
    obtain outs where q: "run_session rsz cvt ?st1 rs = Inr (?st1, outs)"
      and l: "length outs = length (filter (\<lambda>r. r \<noteq> None) rs)"
      and a: "\<forall>final \<in> set outs. shape final = (h, w)"
      unfolding b1 by auto
    have "run_session rsz cvt st (r # rs) = Inr (?st1, final # outs)"
      unfolding Some run_session.simps p using q by simp
    moreover have "\<exists>f'. Some f' \<in> set (r # rs)" using Some by auto
    ultimately show ?thesis using l a s Some by auto
  qed
qed

text \<open>
  Claim C8. In a session whose delivered frames all have the dimensions (h, w), with a
  resize that returns an image of the requested size: the run raises no exception;
  \<open>cv2.resize\<close> is called at most once, namely when a frame is delivered and the
  background's dimensions differ from the frame's; that one call resizes the background
  image to the frame's \<open>dsize = (w, h)\<close> with \<open>INTER_AREA\<close>; afterwards the background has
  the frames' dimensions and is not replaced again; every composited frame has the live
  frame's dimensions, so the live frame is never the one that is resized.
\<close>

theorem background_resized_at_most_once:
  assumes "\<forall>b. shape (rsz b (w, h) INTER_AREA) = (h, w)"
    and "\<forall>f. Some f \<in> set reads \<longrightarrow> shape f = (h, w)"
  shows "\<exists>st' outs. run_session rsz cvt st reads = Inr (st', outs)
       \<and> resizes st' = resizes st @
            (if (\<exists>f. Some f \<in> set reads) \<and> shape (bg st) \<noteq> (h, w)
             then [(bg st, (w, h), INTER_AREA)] else [])
       \<and> length (resizes st') \<le> length (resizes st) + 1
       \<and> bg st' = (if (\<exists>f. Some f \<in> set reads) \<and> shape (bg st) \<noteq> (h, w)
                   then rsz (bg st) (w, h) INTER_AREA else bg st)
       \<and> ((\<exists>f. Some f \<in> set reads) \<longrightarrow> shape (bg st') = (h, w))
       \<and> length outs = length (filter (\<lambda>r. r \<noteq> None) reads)
       \<and> (\<forall>final \<in> set outs. shape final = (h, w))"
proof -
  let ?c = "(\<exists>f. Some f \<in> set reads) \<and> shape (bg st) \<noteq> (h, w)"
  let ?st' = "if ?c then st\<lparr>bg := rsz (bg st) (w, h) INTER_AREA,
                         resizes := resizes st @ [(bg st, (w, h), INTER_AREA)]\<rparr>
              else st"
  from run_session_state [where rsz = rsz and w = w and h = h and reads = reads
      and cvt = cvt and st = st, OF assms]
  obtain outs where r: "run_session rsz cvt st reads = Inr (?st', outs)"
    and l: "length outs = length (filter (\<lambda>r. r \<noteq> None) reads)"
    and a: "\<forall>final \<in> set outs. shape final = (h, w)"
    by blast
  have r1: "shape (rsz (bg st) (w, h) INTER_AREA) = (h, w)" using assms(1) by blast
  have p1: "resizes ?st' = resizes st @ (if ?c then [(bg st, (w, h), INTER_AREA)] else [])"
    by simp
  have p2: "length (resizes ?st') \<le> length (resizes st) + 1" by simp
  have p3: "bg ?st' = (if ?c then rsz (bg st) (w, h) INTER_AREA else bg st)" by simp
  have p4: "(\<exists>f. Some f \<in> set reads) \<longrightarrow> shape (bg ?st') = (h, w)"
    using r1 by auto
  show ?thesis
    by (rule exI [where x = ?st'], rule exI [where x = outs]) (intro conjI r p1 p2 p3 p4 l a)
qed

theorem background_resized_at_most_once_witness:
  "(\<forall>b :: frame.
      shape ((\<lambda>b d i. replicate (snd d) (replicate (fst d) (0, 0, 0))) b (2, 1) INTER_AREA :: frame)
          = (1, 2))
 \<and> shape ([[(1, 2, 3), (4, 5, 6)]] :: frame) = (1, 2)
 \<and> (\<exists>st' outs.
        run_session (\<lambda>b d i. replicate (snd d) (replicate (fst d) (0, 0, 0))) (\<lambda>p. p)
          \<lparr>bg = [[(9, 9, 9)]], resizes = []\<rparr>
          [Some [[(1, 2, 3), (4, 5, 6)]], None, Some [[(1, 2, 3), (4, 5, 6)]]] = Inr (st', outs)
      \<and> resizes st' = [([[(9, 9, 9)]], (2, 1), INTER_AREA)]
      \<and> bg st' = [[(0, 0, 0), (0, 0, 0)]]
      \<and> length outs = 2)"
proof -
  let ?rsz = "(\<lambda>b d i. replicate (snd d) (replicate (fst d) (0, 0, 0))) :: resizer"
  let ?f = "[[(1, 2, 3), (4, 5, 6)]] :: frame"
  let ?reads = "[Some ?f, None, Some ?f]"
  let ?st = "\<lparr>bg = [[(9, 9, 9)]], resizes = []\<rparr>"
  have h1: "\<forall>b. shape (?rsz b (2, 1) INTER_AREA) = (1, 2)"
    by (simp add: shape_def)
  have sf: "shape ?f = (1, 2)" by (simp add: shape_def)
  have h2: "\<forall>f. Some f \<in> set ?reads \<longrightarrow> shape f = (1, 2)"
    using sf by simp
  have ex: "\<exists>f. Some f \<in> set ?reads" by simp
  have ne: "shape (bg ?st) \<noteq> (1, 2)" by (simp add: shape_def)
  from background_resized_at_most_once [where rsz = ?rsz and w = 2 and h = 1
      and reads = ?reads and cvt = "\<lambda>p. p" and st = ?st, OF h1 h2]
  obtain st' outs where r: "run_session ?rsz (\<lambda>p. p) ?st ?reads = Inr (st', outs)"
    and p1: "resizes st' = resizes ?st @
            (if (\<exists>f. Some f \<in> set ?reads) \<and> shape (bg ?st) \<noteq> (1, 2)
             then [(bg ?st, (2, 1), INTER_AREA)] else [])"
    and p3: "bg st' = (if (\<exists>f. Some f \<in> set ?reads) \<and> shape (bg ?st) \<noteq> (1, 2)
                   then ?rsz (bg ?st) (2, 1) INTER_AREA else bg ?st)"
    and l: "length outs = length (filter (\<lambda>r. r \<noteq> None) ?reads)"
    by blast
  have q1: "resizes st' = [([[(9, 9, 9)]], (2, 1), INTER_AREA)]"
    unfolding p1 using ex ne by simp
  have q3: "bg st' = [[(0, 0, 0), (0, 0, 0)]]"
    unfolding p3 using ex ne by (simp add: numeral_2_eq_2)
  have q4: "length outs = 2" unfolding l by simp
  have e: "\<exists>st' outs. run_session ?rsz (\<lambda>p. p) ?st ?reads = Inr (st', outs)
      \<and> resizes st' = [([[(9, 9, 9)]], (2, 1), INTER_AREA)]
      \<and> bg st' = [[(0, 0, 0), (0, 0, 0)]]
      \<and> length outs = 2"
    using r q1 q3 q4 by blast
  show ?thesis by (intro conjI h1 sf e)
qed

section \<open>Opening and dilation on a solid block\<close>

lemma fold_min_all_255:
  "\<forall>x \<in> set xs. x = (255::u8) \<Longrightarrow> fold min xs 255 = 255"
  by (induction xs) simp_all

lemma fold_max_255: "fold max xs (255::u8) = 255"
proof (induction xs)
  case Nil
  show ?case by simp
next
  case (Cons x xs)
  have "max x 255 = (255::u8)" using u8_le_255 [of x] by (simp add: max_def)
  with Cons show ?case by simp
qed

lemma fold_max_has_255:
  "(255::u8) \<in> set xs \<Longrightarrow> fold max xs a = 255"
proof (induction xs arbitrary: a)
  case Nil
  then show ?case by simp
next
  case (Cons x xs)
  show ?case
  proof (cases "x = 255")
    case True
    have "max 255 a = (255::u8)" using u8_le_255 [of a] by (simp add: max_def)
    with True show ?thesis by (simp add: fold_max_255)
  next
    case False
    with Cons.prems have "255 \<in> set xs" by simp
    from Cons.IH [OF this] show ?thesis by simp
  qed
qed

lemma in_window3:
  "di \<in> {-1, 0, 1} \<Longrightarrow> dj \<in> {-1, 0, 1} \<Longrightarrow>
   px_or b m (int i + di) (int j + dj) \<in> set (window3 b m i j)"
  unfolding window3_def by auto

lemma all_window3:
  assumes "\<And>di dj. di \<in> {-1, 0, 1} \<Longrightarrow> dj \<in> {-1, 0, 1} \<Longrightarrow>
             P (px_or b m (int i + di) (int j + dj))"
  shows "\<forall>x \<in> set (window3 b m i j). P x"
  using assms [of "-1" "-1"] assms [of "-1" 0] assms [of "-1" 1]
    assms [of 0 "-1"] assms [of 0 0] assms [of 0 1]
    assms [of 1 "-1"] assms [of 1 0] assms [of 1 1]
  by (simp add: window3_def)

lemma length_erode3 [simp]: "length (erode3 m) = length m"
  by (simp add: erode3_def)

lemma length_dilate3 [simp]: "length (dilate3 m) = length m"
  by (simp add: dilate3_def)

lemma length_erode3_row [simp]: "i < length m \<Longrightarrow> length (erode3 m ! i) = length (m ! i)"
  by (simp add: erode3_def)

lemma length_dilate3_row [simp]: "i < length m \<Longrightarrow> length (dilate3 m ! i) = length (m ! i)"
  by (simp add: dilate3_def)

lemma nth_erode3:
  "i < length m \<Longrightarrow> j < length (m ! i) \<Longrightarrow> erode3 m ! i ! j = erode_px m i j"
  by (simp add: erode3_def)

lemma nth_dilate3:
  "i < length m \<Longrightarrow> j < length (m ! i) \<Longrightarrow> dilate3 m ! i ! j = dilate_px m i j"
  by (simp add: dilate3_def)

text \<open>
  Erosion keeps a cell set when its whole 3x3 neighbourhood lies in a set rectangle;
  dilation sets every cell that touches a set rectangle. The rectangle is rows
  \<open>a..<b\<close>, columns \<open>c..<d\<close> of a mask with \<open>H\<close> rows of \<open>W\<close> cells.
\<close>

lemma erode3_region:
  assumes len: "length m = H" and rows: "\<forall>i<H. length (m ! i) = W"
    and reg: "\<forall>i j. a \<le> i \<and> i < b \<and> c \<le> j \<and> j < d \<longrightarrow> m ! i ! j = 255"
    and bnd: "b \<le> H" "d \<le> W"
    and pos: "a < i" "i + 1 < b" "c < j" "j + 1 < d"
  shows "erode3 m ! i ! j = 255"
proof -
  have iH: "i < length m" using pos bnd len by linarith
  have jW: "j < length (m ! i)" using rows iH len pos bnd by simp
  have cell: "px_or 255 m (int i + di) (int j + dj) = 255"
    if "di \<in> {-1, 0, 1}" "dj \<in> {-1, 0, 1}" for di dj
  proof -
    let ?i = "nat (int i + di)" and ?j = "nat (int j + dj)"
    have "a \<le> ?i \<and> ?i < b \<and> c \<le> ?j \<and> ?j < d" using that pos by auto
    then have "m ! ?i ! ?j = 255" using reg by blast
    then show ?thesis by (simp add: px_or_def)
  qed
  have "\<forall>x \<in> set (window3 255 m i j). x = 255"
    by (rule all_window3) (rule cell)
  then have "erode_px m i j = 255"
    unfolding erode_px_def by (rule fold_min_all_255)
  then show ?thesis using nth_erode3 [OF iH jW] by simp
qed

lemma dilate3_region:
  assumes len: "length m = H" and rows: "\<forall>i<H. length (m ! i) = W"
    and reg: "\<forall>i j. a \<le> i \<and> i < b \<and> c \<le> j \<and> j < d \<longrightarrow> m ! i ! j = 255"
    and ne: "a < b" "c < d"
    and bnd: "b \<le> H" "d \<le> W"
    and pos: "a \<le> i + 1" "i < b + 1" "i < H" "c \<le> j + 1" "j < d + 1" "j < W"
  shows "dilate3 m ! i ! j = 255"
proof -
  define i' where "i' = max a (min i (b - 1))"
  define j' where "j' = max c (min j (d - 1))"
  define di where "di = int i' - int i"
  define dj where "dj = int j' - int j"
  have i': "a \<le> i'" "i' < b" and j': "c \<le> j'" "j' < d"
    using ne by (auto simp: i'_def j'_def)
  have d: "di \<in> {-1, 0, 1}" "dj \<in> {-1, 0, 1}"
    using pos ne by (auto simp: di_def dj_def i'_def j'_def max_def min_def)
  have iH: "i < length m" using pos len by simp
  have jW: "j < length (m ! i)" using rows pos by simp
  have "i' < length m" using i' bnd len by simp
  moreover have "j' < length (m ! i')" using j' bnd rows i' by simp
  moreover have "m ! i' ! j' = 255" using reg i' j' by blast
  ultimately have "px_or 0 m (int i + di) (int j + dj) = 255"
    by (simp add: px_or_def di_def dj_def)
  with in_window3 [OF d, of 0 m i j] have "255 \<in> set (window3 0 m i j)" by simp
  then have "dilate_px m i j = 255"
    unfolding dilate_px_def by (rule fold_max_has_255)
  then show ?thesis using nth_dilate3 [OF iH jW] by simp
qed

lemma erode3_grid:
  assumes "length m = H" and "\<forall>i<H. length (m ! i) = W"
  shows "length (erode3 m) = H" and "\<forall>i<H. length (erode3 m ! i) = W"
  using assms by simp_all

lemma dilate3_grid:
  assumes "length m = H" and "\<forall>i<H. length (m ! i) = W"
  shows "length (dilate3 m) = H" and "\<forall>i<H. length (dilate3 m ! i) = W"
  using assms by simp_all

lemma opened_block_survives:
  assumes len: "length m = H" and rows: "\<forall>i<H. length (m ! i) = W"
    and reg: "\<forall>i j. r0 \<le> i \<and> i < r0 + bh \<and> c0 \<le> j \<and> j < c0 + bw \<longrightarrow> m ! i ! j = 255"
    and big: "5 \<le> bh" "5 \<le> bw"
    and bnd: "r0 + bh \<le> H" "c0 + bw \<le> W"
    and pos: "r0 \<le> i + 1" "i < r0 + bh + 1" "i < H" "c0 \<le> j + 1" "j < c0 + bw + 1" "j < W"
  shows "dilate3 (dilate3 (dilate3 (erode3 (erode3 m)))) ! i ! j = 255"
proof -
  let ?e1 = "erode3 m"
  let ?e2 = "erode3 ?e1"
  let ?d1 = "dilate3 ?e2"
  let ?d2 = "dilate3 ?d1"
  note g1 = erode3_grid [OF len rows]
  note g2 = erode3_grid [OF g1]
  note g3 = dilate3_grid [OF g2]
  note g4 = dilate3_grid [OF g3]
  have r1: "\<forall>i j. r0 + 1 \<le> i \<and> i < r0 + bh - 1 \<and> c0 + 1 \<le> j \<and> j < c0 + bw - 1
              \<longrightarrow> ?e1 ! i ! j = 255"
  proof (intro allI impI)
    fix i j assume "r0 + 1 \<le> i \<and> i < r0 + bh - 1 \<and> c0 + 1 \<le> j \<and> j < c0 + bw - 1"
    then have "r0 < i" "i + 1 < r0 + bh" "c0 < j" "j + 1 < c0 + bw" by linarith+
    with len rows reg bnd show "?e1 ! i ! j = 255" by (rule erode3_region)
  qed
  have b1: "r0 + bh - 1 \<le> H" "c0 + bw - 1 \<le> W" using bnd by linarith+
  have r2: "\<forall>i j. r0 + 2 \<le> i \<and> i < r0 + bh - 2 \<and> c0 + 2 \<le> j \<and> j < c0 + bw - 2
              \<longrightarrow> ?e2 ! i ! j = 255"
  proof (intro allI impI)
    fix i j assume "r0 + 2 \<le> i \<and> i < r0 + bh - 2 \<and> c0 + 2 \<le> j \<and> j < c0 + bw - 2"
    then have "r0 + 1 < i" "i + 1 < r0 + bh - 1" "c0 + 1 < j" "j + 1 < c0 + bw - 1"
      by linarith+
    with g1 r1 b1 show "?e2 ! i ! j = 255" by (rule erode3_region)
  qed
  have b2: "r0 + bh - 2 \<le> H" "c0 + bw - 2 \<le> W" using bnd by linarith+
  have n2: "r0 + 2 < r0 + bh - 2" "c0 + 2 < c0 + bw - 2" using big by linarith+
  have r3: "\<forall>i j. r0 + 1 \<le> i \<and> i < r0 + bh - 1 \<and> c0 + 1 \<le> j \<and> j < c0 + bw - 1
              \<longrightarrow> ?d1 ! i ! j = 255"
  proof (intro allI impI)
    fix i j assume "r0 + 1 \<le> i \<and> i < r0 + bh - 1 \<and> c0 + 1 \<le> j \<and> j < c0 + bw - 1"
    then have "r0 + 2 \<le> i + 1" "i < r0 + bh - 2 + 1" "i < H"
      "c0 + 2 \<le> j + 1" "j < c0 + bw - 2 + 1" "j < W"
      using bnd big by linarith+
    with g2 r2 n2 b2 show "?d1 ! i ! j = 255" by (rule dilate3_region)
  qed
  have n3: "r0 + 1 < r0 + bh - 1" "c0 + 1 < c0 + bw - 1" using big by linarith+
  have r4: "\<forall>i j. r0 \<le> i \<and> i < r0 + bh \<and> c0 \<le> j \<and> j < c0 + bw \<longrightarrow> ?d2 ! i ! j = 255"
  proof (intro allI impI)
    fix i j assume "r0 \<le> i \<and> i < r0 + bh \<and> c0 \<le> j \<and> j < c0 + bw"
    then have "r0 + 1 \<le> i + 1" "i < r0 + bh - 1 + 1" "i < H"
      "c0 + 1 \<le> j + 1" "j < c0 + bw - 1 + 1" "j < W"
      using bnd big by linarith+
    with g3 r3 n3 b1 show "?d2 ! i ! j = 255" by (rule dilate3_region)
  qed
  have n4: "r0 < r0 + bh" "c0 < c0 + bw" using big by linarith+
  from g4 r4 n4 bnd pos show ?thesis by (rule dilate3_region)
qed

lemma raw_mask_set_iff:
  assumes "i < length hsv" and "j < length (hsv ! i)"
  shows "raw_mask hsv ! i ! j =
           (if \<exists>iv \<in> set color_ranges. in_interval (hsv ! i ! j) iv then 255 else 0)"
proof -
  have in1: "inRange hsv lo hi ! i ! j = (if in_interval (hsv ! i ! j) (lo, hi) then 255 else 0)"
    for lo hi
    using assms by (simp add: nth_inRange inRange_px_in_interval)
  show ?thesis
    unfolding nth_raw_mask [OF assms] in1 by (simp add: color_ranges_def)
qed

lemma raw_small_block:
  "raw_mask [[(90, 0, 0), (90, 0, 0), (90, 0, 0), (90, 0, 0), (90, 0, 0)],
             [(90, 0, 0), (5, 200, 200), (5, 200, 200), (5, 200, 200), (90, 0, 0)],
             [(90, 0, 0), (5, 200, 200), (5, 200, 200), (5, 200, 200), (90, 0, 0)],
             [(90, 0, 0), (5, 200, 200), (5, 200, 200), (5, 200, 200), (90, 0, 0)],
             [(90, 0, 0), (90, 0, 0), (90, 0, 0), (90, 0, 0), (90, 0, 0)]]
   = [[0, 0, 0, 0, 0], [0, 255, 255, 255, 0], [0, 255, 255, 255, 0], [0, 255, 255, 255, 0],
      [0, 0, 0, 0, 0]]"
  by (simp add: raw_mask_def inRange_def inRange_px_def np_or_def range_defs)

lemma erode_small_block_1:
  "erode3 [[0, 0, 0, 0, 0], [0, 255, 255, 255, 0], [0, 255, 255, 255, 0], [0, 255, 255, 255, 0],
           [0, 0, 0, 0, 0]]
   = [[0, 0, 0, 0, 0], [0, 0, 0, 0, 0], [0, 0, 255, 0, 0], [0, 0, 0, 0, 0], [0, 0, 0, 0, 0]]"
  by (simp add: morph_defs)

lemma erode_small_block_2:
  "erode3 [[0, 0, 0, 0, 0], [0, 0, 0, 0, 0], [0, 0, 255, 0, 0], [0, 0, 0, 0, 0], [0, 0, 0, 0, 0]]
   = [[0, 0, 0, 0, 0], [0, 0, 0, 0, 0], [0, 0, 0, 0, 0], [0, 0, 0, 0, 0], [0, 0, 0, 0, 0]]"
  by (simp add: morph_defs)

lemma dilate_zeros_5:
  "dilate3 [[0, 0, 0, 0, 0], [0, 0, 0, 0, 0], [0, 0, 0, 0, 0], [0, 0, 0, 0, 0], [0, 0, 0, 0, 0]]
   = [[0, 0, 0, 0, 0], [0, 0, 0, 0, 0], [0, 0, 0, 0, 0], [0, 0, 0, 0, 0], [0, 0, 0, 0, 0]]"
  by (simp add: morph_defs)

text \<open>
  A solid 3x3 block of cloak-coloured pixels, surrounded by pixels outside every
  interval, does not survive: two erosions remove it, and the mask is unset everywhere,
  also at the centre of the block.
\<close>

theorem small_block_erased_counterexample:
  "in_interval (5, 200, 200) (lower_red1, upper_red1)
 \<and> \<not> (\<exists>iv \<in> set color_ranges. in_interval (90, 0, 0) iv)
 \<and> build_red_mask
       [[(90, 0, 0), (90, 0, 0), (90, 0, 0), (90, 0, 0), (90, 0, 0)],
        [(90, 0, 0), (5, 200, 200), (5, 200, 200), (5, 200, 200), (90, 0, 0)],
        [(90, 0, 0), (5, 200, 200), (5, 200, 200), (5, 200, 200), (90, 0, 0)],
        [(90, 0, 0), (5, 200, 200), (5, 200, 200), (5, 200, 200), (90, 0, 0)],
        [(90, 0, 0), (90, 0, 0), (90, 0, 0), (90, 0, 0), (90, 0, 0)]]
     = [[0, 0, 0, 0, 0], [0, 0, 0, 0, 0], [0, 0, 0, 0, 0], [0, 0, 0, 0, 0], [0, 0, 0, 0, 0]]
 \<and> build_red_mask
       [[(90, 0, 0), (90, 0, 0), (90, 0, 0), (90, 0, 0), (90, 0, 0)],
        [(90, 0, 0), (5, 200, 200), (5, 200, 200), (5, 200, 200), (90, 0, 0)],
        [(90, 0, 0), (5, 200, 200), (5, 200, 200), (5, 200, 200), (90, 0, 0)],
        [(90, 0, 0), (5, 200, 200), (5, 200, 200), (5, 200, 200), (90, 0, 0)],
        [(90, 0, 0), (90, 0, 0), (90, 0, 0), (90, 0, 0), (90, 0, 0)]] ! 2 ! 2 \<noteq> 255"
proof -
  have a: "in_interval (5, 200, 200) (lower_red1, upper_red1)"
    by (simp add: in_interval_def range_defs)
  have b: "\<not> (\<exists>iv \<in> set color_ranges. in_interval (90, 0, 0) iv)"
    by (simp add: color_ranges_def in_interval_def range_defs)
  have c: "build_red_mask
       [[(90, 0, 0), (90, 0, 0), (90, 0, 0), (90, 0, 0), (90, 0, 0)],
        [(90, 0, 0), (5, 200, 200), (5, 200, 200), (5, 200, 200), (90, 0, 0)],
        [(90, 0, 0), (5, 200, 200), (5, 200, 200), (5, 200, 200), (90, 0, 0)],
        [(90, 0, 0), (5, 200, 200), (5, 200, 200), (5, 200, 200), (90, 0, 0)],
        [(90, 0, 0), (90, 0, 0), (90, 0, 0), (90, 0, 0), (90, 0, 0)]]
     = [[0, 0, 0, 0, 0], [0, 0, 0, 0, 0], [0, 0, 0, 0, 0], [0, 0, 0, 0, 0], [0, 0, 0, 0, 0]]"
    by (simp only: build_red_mask_steps raw_small_block erode_small_block_1
        erode_small_block_2 dilate_zeros_5)
  show ?thesis
    unfolding c using a b by simp
qed

text \<open>
  Claim C5, as amended. In a frame whose HSV pixels lie inside a configured interval
  over a solid rectangular block of at least 5 by 5 pixels, the mask produced by
  segmentation (interval masks, opening with the 3x3 neighbourhood for 2 iterations, one
  dilation) is set at every pixel of the block and at every pixel of the frame that
  touches the block: over such a block the pipeline grows the region and never shrinks
  it.
\<close>

theorem large_block_stays_masked:
  assumes rect: "rectangular hsv"
    and bnd: "r0 + bh \<le> fst (shape hsv)" "c0 + bw \<le> snd (shape hsv)"
    and big: "5 \<le> bh" "5 \<le> bw"
    and blk: "\<forall>i j. r0 \<le> i \<and> i < r0 + bh \<and> c0 \<le> j \<and> j < c0 + bw \<longrightarrow>
                (\<exists>iv \<in> set color_ranges. in_interval (hsv ! i ! j) iv)"
    and pos: "r0 \<le> i + 1" "i < r0 + bh + 1" "i < fst (shape hsv)"
             "c0 \<le> j + 1" "j < c0 + bw + 1" "j < snd (shape hsv)"
  shows "build_red_mask hsv ! i ! j = 255"
proof -
  define H W where "H = length hsv" and "W = snd (shape hsv)"
  let ?m = "raw_mask hsv"
  have len: "length ?m = H" by (simp add: H_def)
  have hrows: "\<forall>i<H. length (hsv ! i) = W"
    using rect by (simp add: H_def W_def rectangular_row)
  have rows: "\<forall>i<H. length (?m ! i) = W"
    using hrows by (simp add: H_def)
  have bnd': "r0 + bh \<le> H" "c0 + bw \<le> W" using bnd by (simp_all add: H_def W_def)
  have reg: "\<forall>i j. r0 \<le> i \<and> i < r0 + bh \<and> c0 \<le> j \<and> j < c0 + bw \<longrightarrow> ?m ! i ! j = 255"
  proof (intro allI impI)
    fix i j assume a: "r0 \<le> i \<and> i < r0 + bh \<and> c0 \<le> j \<and> j < c0 + bw"
    then have i: "i < length hsv" using bnd' by (simp add: H_def)
    have j: "j < length (hsv ! i)" using a bnd' hrows i by (simp add: H_def)
    have "\<exists>iv \<in> set color_ranges. in_interval (hsv ! i ! j) iv" using blk a by blast
    then show "?m ! i ! j = 255" unfolding raw_mask_set_iff [OF i j] by simp
  qed
  have pos': "r0 \<le> i + 1" "i < r0 + bh + 1" "i < H" "c0 \<le> j + 1" "j < c0 + bw + 1" "j < W"
    using pos by (simp_all add: H_def W_def)
  from len rows reg big bnd' pos'
  have "dilate3 (dilate3 (dilate3 (erode3 (erode3 ?m)))) ! i ! j = 255"
    by (rule opened_block_survives)
  then show ?thesis unfolding build_red_mask_steps .
qed

theorem large_block_stays_masked_witness:
  "rectangular ([replicate 7 (90, 0, 0)] @ replicate 5 ((90, 0, 0) # replicate 5 (5, 200, 200) @ [(90, 0, 0)])
                 @ [replicate 7 (90, 0, 0)] :: frame)
 \<and> shape ([replicate 7 (90, 0, 0)] @ replicate 5 ((90, 0, 0) # replicate 5 (5, 200, 200) @ [(90, 0, 0)])
                 @ [replicate 7 (90, 0, 0)] :: frame) = (7, 7)
 \<and> in_interval (5, 200, 200) (lower_red1, upper_red1)
 \<and> build_red_mask ([replicate 7 (90, 0, 0)] @ replicate 5 ((90, 0, 0) # replicate 5 (5, 200, 200) @ [(90, 0, 0)])
                 @ [replicate 7 (90, 0, 0)]) ! 3 ! 3 = 255
 \<and> build_red_mask ([replicate 7 (90, 0, 0)] @ replicate 5 ((90, 0, 0) # replicate 5 (5, 200, 200) @ [(90, 0, 0)])
                 @ [replicate 7 (90, 0, 0)]) ! 0 ! 0 = 255"
proof -
  let ?q = "(90, 0, 0) :: pixel" and ?p = "(5, 200, 200) :: pixel"
  let ?hsv = "[replicate 7 ?q] @ replicate 5 (?q # replicate 5 ?p @ [?q]) @ [replicate 7 ?q]"
  have sh: "shape ?hsv = (7, 7)" by (simp add: shape_def)
  have rect: "rectangular ?hsv" unfolding rectangular_def sh by auto
  have bnd: "1 + 5 \<le> fst (shape ?hsv)" "1 + 5 \<le> snd (shape ?hsv)" unfolding sh by simp_all
  have big: "(5::nat) \<le> 5" by simp
  have a: "in_interval ?p (lower_red1, upper_red1)"
    by (simp add: in_interval_def range_defs)
  have cell: "?hsv ! i ! j = ?p" if "1 \<le> i" "i < 6" "1 \<le> j" "j < 6" for i j
  proof -
    have "?hsv ! i = ?q # replicate 5 ?p @ [?q]"
      using that by (auto simp add: nth_append nth_Cons')
    then show ?thesis using that by (auto simp add: nth_append nth_Cons')
  qed
  have blk: "\<forall>i j. 1 \<le> i \<and> i < 1 + 5 \<and> 1 \<le> j \<and> j < 1 + 5 \<longrightarrow>
                (\<exists>iv \<in> set color_ranges. in_interval (?hsv ! i ! j) iv)"
  proof (intro allI impI)
    fix i j :: nat assume "1 \<le> i \<and> i < 1 + 5 \<and> 1 \<le> j \<and> j < 1 + 5"
    then have "?hsv ! i ! j = ?p" by (intro cell) simp_all
    with a show "\<exists>iv \<in> set color_ranges. in_interval (?hsv ! i ! j) iv"
      by (simp add: color_ranges_def)
  qed
  have p3: "(1::nat) \<le> 3 + 1" "(3::nat) < 1 + 5 + 1" "3 < fst (shape ?hsv)" "3 < snd (shape ?hsv)"
    unfolding sh by simp_all
  have p0: "(1::nat) \<le> 0 + 1" "(0::nat) < 1 + 5 + 1" "0 < fst (shape ?hsv)" "0 < snd (shape ?hsv)"
    unfolding sh by simp_all
  have centre: "build_red_mask ?hsv ! 3 ! 3 = 255"
    by (rule large_block_stays_masked [OF rect bnd big big blk p3(1,2,3) p3(1,2,4)])
  have corner: "build_red_mask ?hsv ! 0 ! 0 = 255"
    by (rule large_block_stays_masked [OF rect bnd big big blk p0(1,2,3) p0(1,2,4)])
  show ?thesis by (intro conjI rect sh a centre corner)
qed

end
